theory Spec2Isabelle
  imports Complex_Main
begin

section \<open>Bank queue simulation (bank\_queue\_sim.py)\<close>

text \<open>
  Python floats are idealised as \<^typ>\<open>real\<close>, Python integers are \<^typ>\<open>int\<close>, and every
  exception the program can meet is a value of \<open>error\<close>. The program calls three libraries:
  \<open>random\<close>, \<open>statistics\<close> and the discrete-event library \<open>simpy\<close>. Their parts that
  the program uses are modelled below, each under the name of the call it stands for.
  The scheduler, the processes' suspension and the teller pool are \<open>simpy\<close>'s; they are
  the core that the specification describes in its sections 3 to 5, and their definitions
  say so. Of the printed lines, the three of \<open>customer\<close> are kept (they are the trace of a
  verbose run); the headers and summaries of the other functions are not.
\<close>

datatype error = ValueError | ZeroDivisionError | StatisticsError | RuntimeError

subsection \<open>The module-level random generator\<close>

text \<open>
  The state of the global generator is the stream of the values
  \<open>-log(1.0 - random())\<close> it is still going to produce; \<open>random()\<close> lies in \<open>[0, 1)\<close>,
  so each of them is non-negative (predicate \<open>exponential_draws\<close>).
  \<open>expovariate(lambd)\<close> is that value divided by \<open>lambd\<close>.
\<close>

type_synonym rng = "nat \<Rightarrow> real"

definition exponential_draws :: "rng \<Rightarrow> bool" where
  "exponential_draws g = (\<forall>n. 0 \<le> g n)"

definition random_draw :: "rng \<Rightarrow> real \<times> rng" where
  "random_draw g = (g 0, \<lambda>n. g (Suc n))"

definition expovariate :: "real \<Rightarrow> rng \<Rightarrow> (error + real) \<times> rng" where
  "expovariate lambd g =
     (case random_draw g of (u, g') \<Rightarrow>
        (if lambd = 0 then Inl ZeroDivisionError else Inr (u / lambd), g'))"

subsection \<open>Scheduler, event queue and server pool\<close>

text \<open>
  A customer process is suspended with its two locals, the number in its name and its
  \<open>arrival_time\<close>; the same pair stands for the request it holds on the teller pool.
  A process is resumed by the event it waits for, so an event names the continuation it
  runs when it is dispatched: the start of \<open>customer_arrivals\<close> and its timeout of line 67;
  the start of the customer of a given number, the grant of its request of line 47, its
  timeout of line 57 and the release on leaving the \<open>with\<close> block; the event of a process
  that has ended or failed; and the cutoff of \<open>run\<close>. An entry of the queue is an event
  with its time, priority and sequence number.

  The state of a run is the scheduler's clock, queue and sequence counter, the pool's
  capacity, users and wait queue, the counter of \<open>customer_arrivals\<close>, the two lists of
  \<open>run_single_simulation\<close>, the random generator and the lines printed so far.
\<close>

type_synonym request = "nat \<times> real"

datatype event =
    InitArrivals
  | ArrivalTimeout
  | InitCustomer nat
  | Granted request
  | ServiceTimeout request
  | Released request
  | ProcessEnd
  | ProcessFailed error
  | StopEvent

type_synonym entry = "real \<times> nat \<times> nat \<times> event"

datatype msg =
    Arrives nat real
  | StartsService nat real real
  | Leaves nat real

record sim =
  now :: real
  queue :: "entry list"
  eid :: nat
  capacity :: int
  users :: "request list"
  put_queue :: "request list"
  customer_id :: nat
  waiting_times :: "real list"
  service_times :: "real list"
  generator :: rng
  stdout :: "msg list"

text \<open>
  Modelled from the spec: the two priorities of an event (lower is earlier); the start of a
  process and the cutoff are urgent, everything else is normal.
\<close>

definition URGENT :: nat where
  "URGENT = 0"

definition NORMAL :: nat where
  "NORMAL = 1"

text \<open>
  Modelled from the spec: the order of the event queue (\<open>simpy.Environment\<close>, not among the
  sources). Events are totally ordered by (time, priority, sequence).
\<close>

fun before :: "entry \<Rightarrow> entry \<Rightarrow> bool" where
  "before (t, p, i, e) (t', p', i', e') =
     (t < t' \<or> (t = t' \<and> (p < p' \<or> (p = p' \<and> i < i'))))"

text \<open>
  Modelled from the spec: entering an event into the queue. The queue is kept as the list
  of its entries in the order in which they are popped, so the head is the earliest.
\<close>

fun heappush :: "entry \<Rightarrow> entry list \<Rightarrow> entry list" where
  "heappush x [] = [x]"
| "heappush x (y # ys) = (if before x y then x # y # ys else y # heappush x ys)"

text \<open>
  Modelled from the spec: \<open>Environment.schedule(event, priority, delay)\<close> enters the event
  at \<open>now + delay\<close> under the next sequence number.
\<close>

definition schedule :: "event \<Rightarrow> nat \<Rightarrow> real \<Rightarrow> sim \<Rightarrow> sim" where
  "schedule e prio delay st =
     st\<lparr>queue := heappush (now st + delay, prio, eid st, e) (queue st), eid := Suc (eid st)\<rparr>"

text \<open>
  Modelled from the spec: a process whose body raises is marked failed and its own event is
  scheduled; the error leaves \<open>run\<close> when that event is dispatched.
\<close>

definition fail :: "error \<Rightarrow> sim \<Rightarrow> sim" where
  "fail err st = schedule (ProcessFailed err) NORMAL 0 st"

text \<open>
  Modelled from the spec: the server pool (\<open>simpy.Resource\<close>, not among the sources) grants
  the head of its wait queue when fewer than \<open>capacity\<close> requests hold a slot; the grant is
  an event of its own, dispatched at the same time.
\<close>

definition trigger_put :: "sim \<Rightarrow> sim" where
  "trigger_put st =
     (case put_queue st of
        [] \<Rightarrow> st
      | r # rest \<Rightarrow>
          if int (length (users st)) < capacity st
          then schedule (Granted r) NORMAL 0 (st\<lparr>users := users st @ [r], put_queue := rest\<rparr>)
          else st)"

text \<open>
  Modelled from the spec: a request joins the tail of the wait queue, and the pool looks
  whether it can grant.
\<close>

definition request :: "request \<Rightarrow> sim \<Rightarrow> sim" where
  "request r st = trigger_put (st\<lparr>put_queue := put_queue st @ [r]\<rparr>)"

text \<open>
  Modelled from the spec: a release frees the slot at once; the pool looks at its wait
  queue when the event of the release is dispatched.
\<close>

definition release :: "request \<Rightarrow> sim \<Rightarrow> sim" where
  "release r st = schedule (Released r) NORMAL 0 (st\<lparr>users := remove1 r (users st)\<rparr>)"

subsection \<open>The two processes\<close>

definition say :: "bool \<Rightarrow> msg \<Rightarrow> sim \<Rightarrow> sim" where
  "say verbose m st = (if verbose then st\<lparr>stdout := stdout st @ [m]\<rparr> else st)"

text \<open>
  \<open>customer\<close>, from its start to \<open>yield request\<close>: the arrival time is read off the clock and
  the request joins the pool.
\<close>

definition customer_arrive :: "bool \<Rightarrow> nat \<Rightarrow> sim \<Rightarrow> sim" where
  "customer_arrive verbose name st =
     (let arrival_time = now st
      in request (name, arrival_time) (say verbose (Arrives name arrival_time) st))"

text \<open>
  \<open>customer\<close>, from the grant to \<open>yield env.timeout(service_time)\<close>: the wait and then the
  service time are appended. An error raised inside the \<open>with\<close> block releases the slot on
  the way out and fails the process.
\<close>

definition customer_serve :: "real \<Rightarrow> bool \<Rightarrow> request \<Rightarrow> sim \<Rightarrow> sim" where
  "customer_serve mean_service_time verbose r st =
     (let wait = now st - snd r;
          st1 = say verbose (StartsService (fst r) (now st) wait)
                  (st\<lparr>waiting_times := waiting_times st @ [wait]\<rparr>)
      in if mean_service_time = 0 then fail ZeroDivisionError (release r st1)
         else
           (case expovariate (1 / mean_service_time) (generator st1) of
              (Inl err, g) \<Rightarrow> fail err (release r (st1\<lparr>generator := g\<rparr>))
            | (Inr service_time, g) \<Rightarrow>
                (let st2 = st1\<lparr>generator := g,
                               service_times := service_times st1 @ [service_time]\<rparr>
                 in if service_time < 0 then fail ValueError (release r st2)
                    else schedule (ServiceTimeout r) NORMAL service_time st2)))"

text \<open>\<open>customer\<close>, after the service: the slot is released and the process ends.\<close>

definition customer_leave :: "bool \<Rightarrow> request \<Rightarrow> sim \<Rightarrow> sim" where
  "customer_leave verbose r st =
     schedule ProcessEnd NORMAL 0 (release r (say verbose (Leaves (fst r) (now st)) st))"

text \<open>
  \<open>customer_arrivals\<close>, from the head of \<open>while True\<close> to the \<open>yield\<close>: the next gap is drawn
  and a timeout is made for it (a negative delay is a \<open>ValueError\<close>).
\<close>

definition arrivals_wait :: "real \<Rightarrow> sim \<Rightarrow> sim" where
  "arrivals_wait mean_interarrival st =
     (if mean_interarrival = 0 then fail ZeroDivisionError st
      else
        (case expovariate (1 / mean_interarrival) (generator st) of
           (Inl err, g) \<Rightarrow> fail err (st\<lparr>generator := g\<rparr>)
         | (Inr gap, g) \<Rightarrow>
             if gap < 0 then fail ValueError (st\<lparr>generator := g\<rparr>)
             else schedule ArrivalTimeout NORMAL gap (st\<lparr>generator := g\<rparr>)))"

text \<open>\<open>customer_arrivals\<close>, resumed by its timeout: one customer process is started.\<close>

definition arrivals_spawn :: "real \<Rightarrow> sim \<Rightarrow> sim" where
  "arrivals_spawn mean_interarrival st =
     (let n = Suc (customer_id st)
      in arrivals_wait mean_interarrival
           (schedule (InitCustomer n) URGENT 0 (st\<lparr>customer_id := n\<rparr>)))"

subsection \<open>The event loop\<close>

datatype signal = Next | Stop | Raise error

text \<open>
  Modelled from the spec: dispatching an event runs its callbacks. The event a process
  waits for resumes that process at its suspension point; the event of a failed process
  raises its error out of the loop, and the cutoff event stops the loop.
\<close>

fun dispatch :: "real \<Rightarrow> real \<Rightarrow> bool \<Rightarrow> event \<Rightarrow> sim \<Rightarrow> signal \<times> sim" where
  "dispatch mi ms verbose InitArrivals st = (Next, arrivals_wait mi (st\<lparr>customer_id := 0\<rparr>))"
| "dispatch mi ms verbose ArrivalTimeout st = (Next, arrivals_spawn mi st)"
| "dispatch mi ms verbose (InitCustomer n) st = (Next, customer_arrive verbose n st)"
| "dispatch mi ms verbose (Granted r) st = (Next, customer_serve ms verbose r st)"
| "dispatch mi ms verbose (ServiceTimeout r) st = (Next, customer_leave verbose r st)"
| "dispatch mi ms verbose (Released r) st = (Next, trigger_put st)"
| "dispatch mi ms verbose ProcessEnd st = (Next, st)"
| "dispatch mi ms verbose (ProcessFailed err) st = (Raise err, st)"
| "dispatch mi ms verbose StopEvent st = (Stop, st)"

text \<open>
  Modelled from the spec: one step of the scheduler pops the earliest event, moves the
  clock to its time and dispatches it. An empty queue is an error of the loop.
\<close>

definition step :: "real \<Rightarrow> real \<Rightarrow> bool \<Rightarrow> sim \<Rightarrow> signal \<times> sim" where
  "step mean_interarrival mean_service_time verbose st =
     (case queue st of
        [] \<Rightarrow> (Raise RuntimeError, st)
      | (t, p, i, e) # rest \<Rightarrow>
          dispatch mean_interarrival mean_service_time verbose e (st\<lparr>now := t, queue := rest\<rparr>))"

text \<open>
  Modelled from the spec: the loop of the scheduler, which steps until the cutoff event or
  an error stops it. It is given fuel: \<open>None\<close> means that the loop has not left after that
  many steps.
\<close>

fun run_loop :: "nat \<Rightarrow> real \<Rightarrow> real \<Rightarrow> bool \<Rightarrow> sim \<Rightarrow> (error + sim) option" where
  "run_loop 0 mi ms verbose st = None"
| "run_loop (Suc k) mi ms verbose st =
     (case step mi ms verbose st of
        (Next, st') \<Rightarrow> run_loop k mi ms verbose st'
      | (Stop, st') \<Rightarrow> Some (Inr st')
      | (Raise err, st') \<Rightarrow> Some (Inl err))"

text \<open>The state after at most \<open>k\<close> steps of that loop.\<close>

fun steps :: "nat \<Rightarrow> real \<Rightarrow> real \<Rightarrow> bool \<Rightarrow> sim \<Rightarrow> sim" where
  "steps 0 mi ms verbose st = st"
| "steps (Suc k) mi ms verbose st =
     (case step mi ms verbose st of
        (Next, st') \<Rightarrow> steps k mi ms verbose st'
      | (other, st') \<Rightarrow> st')"

text \<open>
  Lines 78 to 85 of \<open>run_single_simulation\<close>: a fresh environment, the teller pool, the two
  lists, and the arrival process with its initialisation event.
\<close>

definition new_sim :: "int \<Rightarrow> rng \<Rightarrow> sim" where
  "new_sim num_tellers g =
     \<lparr>now = 0, queue = [], eid = 0, capacity = num_tellers, users = [], put_queue = [],
      customer_id = 0, waiting_times = [], service_times = [], generator = g, stdout = []\<rparr>"

text \<open>The state in which the loop starts: the arrival process and the cutoff are scheduled.\<close>

definition started :: "int \<Rightarrow> real \<Rightarrow> rng \<Rightarrow> sim" where
  "started num_tellers sim_time g =
     schedule StopEvent URGENT sim_time (schedule InitArrivals URGENT 0 (new_sim num_tellers g))"

text \<open>
  Modelled from the spec: the pool refuses a capacity below one, and \<open>run(until)\<close> refuses a
  time that is not ahead of the clock; it schedules the cutoff as an urgent event at that
  time and runs the loop until the event is dispatched (so an event due at the cutoff
  itself is not dispatched any more). These are lines 79 and 86 of
  \<open>run_single_simulation\<close>.
\<close>

definition simulate ::
  "nat \<Rightarrow> int \<Rightarrow> real \<Rightarrow> real \<Rightarrow> real \<Rightarrow> bool \<Rightarrow> rng \<Rightarrow> (error + sim) option" where
  "simulate fuel num_tellers mean_interarrival mean_service_time sim_time verbose g =
     (if num_tellers \<le> 0 then Some (Inl ValueError)
      else if sim_time \<le> 0 then Some (Inl ValueError)
      else run_loop fuel mean_interarrival mean_service_time verbose
             (started num_tellers sim_time g))"

subsection \<open>The statistics module and the built-ins\<close>

definition then_do :: "error + 'a \<Rightarrow> ('a \<Rightarrow> error + 'b) \<Rightarrow> error + 'b" where
  "then_do r f = (case r of Inl err \<Rightarrow> Inl err | Inr v \<Rightarrow> f v)"

definition mean :: "real list \<Rightarrow> error + real" where
  "mean data =
     (if data = [] then Inl StatisticsError else Inr (sum_list data / real (length data)))"

definition stdev :: "real list \<Rightarrow> error + real" where
  "stdev data =
     (if length data < 2 then Inl StatisticsError
      else then_do (mean data) (\<lambda>m.
             Inr (sqrt (sum_list (map (\<lambda>x. (x - m)\<^sup>2) data) / real (length data - 1)))))"

definition py_max :: "real list \<Rightarrow> error + real" where
  "py_max data = (case data of [] \<Rightarrow> Inl ValueError | x # rest \<Rightarrow> Inr (fold max rest x))"

definition truediv :: "real \<Rightarrow> real \<Rightarrow> error + real" where
  "truediv x y = (if y = 0 then Inl ZeroDivisionError else Inr (x / y))"

subsection \<open>List objects\<close>

text \<open>
  A run result refers to the two lists of its run, and the aggregation builds two lists of
  its own by \<open>extend\<close>. List objects live in a store; a reference is an index into it.
\<close>

type_synonym store = "real list list"

definition new_list :: "store \<Rightarrow> nat \<times> store" where
  "new_list h = (length h, h @ [[]])"

definition list_extend :: "nat \<Rightarrow> real list \<Rightarrow> store \<Rightarrow> store" where
  "list_extend a xs h = h[a := h ! a @ xs]"

subsection \<open>One run\<close>

record run_result =
  run_number :: int
  customers_served :: int
  avg_waiting_time :: real
  max_waiting_time :: real
  avg_service_time :: real
  waiting_times_ref :: nat
  service_times_ref :: nat

text \<open>The dictionary \<open>stats\<close> of lines 89 to 97, from the two lists and their references.\<close>

definition make_stats :: "int \<Rightarrow> real list \<Rightarrow> real list \<Rightarrow> nat \<Rightarrow> nat \<Rightarrow> error + run_result" where
  "make_stats run wts sts a b =
     then_do (if wts \<noteq> [] then mean wts else Inr 0) (\<lambda>avg_w.
     then_do (if wts \<noteq> [] then py_max wts else Inr 0) (\<lambda>max_w.
     then_do (if sts \<noteq> [] then mean sts else Inr 0) (\<lambda>avg_s.
       Inr \<lparr>run_number = run, customers_served = int (length wts),
            avg_waiting_time = avg_w, max_waiting_time = max_w, avg_service_time = avg_s,
            waiting_times_ref = a, service_times_ref = b\<rparr>)))"

text \<open>
  \<open>run_single_simulation\<close>. The two lists are reachable from this run alone until it
  returns, so the run keeps their contents in its own state and the store holds them, at
  two fresh references, from the return on. An error leaves the program, so no state is
  returned with it.
\<close>

definition run_single_simulation ::
  "nat \<Rightarrow> store \<Rightarrow> rng \<Rightarrow> int \<Rightarrow> real \<Rightarrow> real \<Rightarrow> real \<Rightarrow> int \<Rightarrow> bool
     \<Rightarrow> (error + run_result \<times> store \<times> rng) option" where
  "run_single_simulation fuel h g num_tellers mean_interarrival mean_service_time sim_time
       run verbose =
     (case simulate fuel num_tellers mean_interarrival mean_service_time sim_time verbose g of
        None \<Rightarrow> None
      | Some (Inl err) \<Rightarrow> Some (Inl err)
      | Some (Inr st) \<Rightarrow>
          Some (then_do
                  (make_stats run (waiting_times st) (service_times st)
                     (length h) (Suc (length h)))
                  (\<lambda>stats. Inr (stats, h @ [waiting_times st, service_times st],
                                generator st))))"

subsection \<open>Many runs\<close>

text \<open>
  The body of the \<open>for\<close> loop of \<open>run_multiple_simulations\<close> over the run numbers still to
  come; each run has \<open>fuel\<close> steps of its own.
\<close>

fun run_each ::
  "nat \<Rightarrow> int \<Rightarrow> real \<Rightarrow> real \<Rightarrow> real \<Rightarrow> int list \<Rightarrow> run_result list \<Rightarrow> store \<Rightarrow> rng
     \<Rightarrow> (error + run_result list \<times> store \<times> rng) option" where
  "run_each fuel nt mi ms sim_time [] all_stats h g = Some (Inr (all_stats, h, g))"
| "run_each fuel nt mi ms sim_time (run # rest) all_stats h g =
     (case run_single_simulation fuel h g nt mi ms sim_time run (run = 1) of
        None \<Rightarrow> None
      | Some (Inl err) \<Rightarrow> Some (Inl err)
      | Some (Inr (stats, h', g')) \<Rightarrow>
          run_each fuel nt mi ms sim_time rest (all_stats @ [stats]) h' g')"

definition run_multiple_simulations ::
  "nat \<Rightarrow> store \<Rightarrow> rng \<Rightarrow> int \<Rightarrow> real \<Rightarrow> real \<Rightarrow> real \<Rightarrow> int
     \<Rightarrow> (error + run_result list \<times> store \<times> rng) option" where
  "run_multiple_simulations fuel h g num_tellers mean_interarrival mean_service_time sim_time
       num_runs =
     run_each fuel num_tellers mean_interarrival mean_service_time sim_time [1..num_runs]
       [] h g"

subsection \<open>Aggregation\<close>

record overall_stats =
  total_runs :: int
  total_customers_served :: int
  avg_customers_per_run :: real
  mean_avg_waiting_time :: real
  std_avg_waiting_time :: real
  mean_max_waiting_time :: real
  mean_avg_service_time :: real
  overall_avg_waiting_time :: real
  overall_max_waiting_time :: real
  overall_avg_service_time :: real
  waiting_time_95ci_low :: real
  waiting_time_95ci_high :: real

text \<open>The loop of lines 136 to 138 on the two lists at \<open>a\<close> and \<open>b\<close>.\<close>

fun flatten :: "nat \<Rightarrow> nat \<Rightarrow> run_result list \<Rightarrow> store \<Rightarrow> store" where
  "flatten a b [] h = h"
| "flatten a b (stats # rest) h =
     flatten a b rest
       (let h1 = list_extend a (h ! waiting_times_ref stats) h
        in list_extend b (h1 ! service_times_ref stats) h1)"

text \<open>The half-width \<open>1.96 * stdev / len ** 0.5\<close> of lines 158 and 159.\<close>

definition half_width :: "real list \<Rightarrow> error + real" where
  "half_width data =
     then_do (stdev data) (\<lambda>s. truediv (196 / 100 * s) (sqrt (real (length data))))"

text \<open>
  The comprehensions of lines 128 to 131 and the dictionary \<open>overall_stats\<close> of lines 140
  to 160, entry by entry, from \<open>all_stats\<close> and the contents of the two flattened lists.
\<close>

definition overall ::
  "run_result list \<Rightarrow> real list \<Rightarrow> real list \<Rightarrow> error + overall_stats" where
  "overall all_stats all_waiting_times all_service_times =
     (let avg_waiting_times =
            map avg_waiting_time (filter (\<lambda>stats. customers_served stats > 0) all_stats);
          max_waiting_times =
            map max_waiting_time (filter (\<lambda>stats. customers_served stats > 0) all_stats);
          served = map customers_served all_stats;
          avg_service_times =
            map avg_service_time (filter (\<lambda>stats. customers_served stats > 0) all_stats)
      in then_do (mean (map real_of_int served)) (\<lambda>avg_cust.
         then_do (if avg_waiting_times \<noteq> [] then mean avg_waiting_times else Inr 0)
           (\<lambda>mean_avg_w.
         then_do (if length avg_waiting_times > 1 then stdev avg_waiting_times else Inr 0)
           (\<lambda>std_avg_w.
         then_do (if max_waiting_times \<noteq> [] then mean max_waiting_times else Inr 0)
           (\<lambda>mean_max_w.
         then_do (if avg_service_times \<noteq> [] then mean avg_service_times else Inr 0)
           (\<lambda>mean_avg_s.
         then_do (if all_waiting_times \<noteq> [] then mean all_waiting_times else Inr 0)
           (\<lambda>all_avg_w.
         then_do (if all_waiting_times \<noteq> [] then py_max all_waiting_times else Inr 0)
           (\<lambda>all_max_w.
         then_do (if all_service_times \<noteq> [] then mean all_service_times else Inr 0)
           (\<lambda>all_avg_s.
         then_do (if length avg_waiting_times > 1
                  then then_do (mean avg_waiting_times) (\<lambda>m.
                       then_do (half_width avg_waiting_times) (\<lambda>w. Inr (m - w)))
                  else Inr 0)
           (\<lambda>ci_low.
         then_do (if length avg_waiting_times > 1
                  then then_do (mean avg_waiting_times) (\<lambda>m.
                       then_do (half_width avg_waiting_times) (\<lambda>w. Inr (m + w)))
                  else Inr 0)
           (\<lambda>ci_high.
           Inr \<lparr>total_runs = int (length all_stats),
                total_customers_served = sum_list served,
                avg_customers_per_run = avg_cust,
                mean_avg_waiting_time = mean_avg_w,
                std_avg_waiting_time = std_avg_w,
                mean_max_waiting_time = mean_max_w,
                mean_avg_service_time = mean_avg_s,
                overall_avg_waiting_time = all_avg_w,
                overall_max_waiting_time = all_max_w,
                overall_avg_service_time = all_avg_s,
                waiting_time_95ci_low = ci_low,
                waiting_time_95ci_high = ci_high\<rparr>)))))))))))"

text \<open>
  \<open>calculate_overall_statistics\<close>: \<open>None\<close> for no runs at all; otherwise two new lists are
  made, every run's observations are appended to them, and the dictionary is returned.
\<close>

definition calculate_overall_statistics ::
  "store \<Rightarrow> run_result list \<Rightarrow> (error + overall_stats option) \<times> store" where
  "calculate_overall_statistics h all_stats =
     (if all_stats = [] then (Inr None, h)
      else
        (case new_list h of (a, h1) \<Rightarrow>
         case new_list h1 of (b, h2) \<Rightarrow>
           (let h3 = flatten a b all_stats h2
            in (then_do (overall all_stats (h3 ! a) (h3 ! b)) (\<lambda>d. Inr (Some d)), h3))))"

subsection \<open>What a simulation state holds\<close>

text \<open>
  The requests whose grant is scheduled but not yet dispatched, and the customers whose
  process is started but has not run yet, both in the order of the event queue.
\<close>

fun grant_of :: "entry \<Rightarrow> request list" where
  "grant_of (t, p, i, Granted r) = [r]"
| "grant_of x = []"

definition grants :: "entry list \<Rightarrow> request list" where
  "grants q = concat (map grant_of q)"

fun init_of :: "entry \<Rightarrow> nat list" where
  "init_of (t, p, i, InitCustomer n) = [n]"
| "init_of x = []"

definition inits :: "entry list \<Rightarrow> nat list" where
  "inits q = concat (map init_of q)"

text \<open>The entries that resume the arrival process, and the one that starts it.\<close>

fun wakes_arrivals :: "entry \<Rightarrow> bool" where
  "wakes_arrivals (t, p, i, InitArrivals) = True"
| "wakes_arrivals (t, p, i, ArrivalTimeout) = True"
| "wakes_arrivals x = False"

fun starts_arrivals :: "entry \<Rightarrow> bool" where
  "starts_arrivals (t, p, i, InitArrivals) = True"
| "starts_arrivals x = False"

text \<open>
  The lines of the verbose trace: the names in the order of the \<open>arrives\<close> lines, and the
  names and clock readings in the order of the \<open>starts service\<close> lines.
\<close>

fun arrival_of :: "msg \<Rightarrow> nat list" where
  "arrival_of (Arrives n t) = [n]"
| "arrival_of m = []"

definition arrived :: "msg list \<Rightarrow> nat list" where
  "arrived out = concat (map arrival_of out)"

fun start_of :: "msg \<Rightarrow> (nat \<times> real) list" where
  "start_of (StartsService n t w) = [(n, t)]"
| "start_of m = []"

definition service_starts :: "msg list \<Rightarrow> (nat \<times> real) list" where
  "service_starts out = concat (map start_of out)"

text \<open>
  The queue is in the order in which it is popped, the clock is not negative and no pending
  event lies in the past.
\<close>

definition ordered :: "entry list \<Rightarrow> bool" where
  "ordered q = sorted_wrt (\<lambda>x y. \<not> before y x) q"

definition clock_ok :: "sim \<Rightarrow> bool" where
  "clock_ok st =
     (0 \<le> now st \<and> ordered (queue st) \<and> (\<forall>x\<in>set (queue st). now st \<le> fst x))"

text \<open>No customer that waits for a teller or for the dispatch of its grant arrived in the future.\<close>

definition arrivals_ok :: "sim \<Rightarrow> bool" where
  "arrivals_ok st =
     ((\<forall>r\<in>set (put_queue st). snd r \<le> now st) \<and>
      (\<forall>r\<in>set (grants (queue st)). snd r \<le> now st))"

definition observations_ok :: "sim \<Rightarrow> bool" where
  "observations_ok st =
     ((\<forall>w\<in>set (waiting_times st). 0 \<le> w) \<and> (\<forall>s\<in>set (service_times st). 0 \<le> s))"

definition timing_ok :: "sim \<Rightarrow> bool" where
  "timing_ok st =
     (clock_ok st \<and> arrivals_ok st \<and> observations_ok st \<and> exponential_draws (generator st))"

text \<open>The teller pool holds no more requests than it has slots.\<close>

definition pool_ok :: "sim \<Rightarrow> bool" where
  "pool_ok st = (int (length (users st)) \<le> capacity st)"

text \<open>
  A scheduled grant is due now, at normal priority, under a sequence number already used;
  so a grant scheduled later is popped later.
\<close>

definition grants_due :: "sim \<Rightarrow> bool" where
  "grants_due st =
     (\<forall>x\<in>set (queue st). grant_of x \<noteq> [] \<longrightarrow>
        fst x \<le> now st \<and> fst (snd x) \<le> NORMAL \<and> fst (snd (snd x)) < eid st)"

text \<open>
  The customers that wait for a teller, by name: first those whose grant is scheduled,
  then the wait queue of the pool.
\<close>

definition waiting_line :: "sim \<Rightarrow> nat list" where
  "waiting_line st = map fst (grants (queue st)) @ map fst (put_queue st)"

text \<open>
  First come, first served, on the verbose trace: the customers arrived, in that order,
  are those that started service, in that order, and then the waiting line; and the
  service starts are in the order of the clock.
\<close>

definition fifo_ok :: "sim \<Rightarrow> bool" where
  "fifo_ok st =
     (arrived (stdout st) = map fst (service_starts (stdout st)) @ waiting_line st \<and>
      sorted (map snd (service_starts (stdout st))) \<and>
      (\<forall>m\<in>set (service_starts (stdout st)). snd m \<le> now st))"

text \<open>
  The customers that have been created and have not started service: those in the wait
  queue, those whose grant is scheduled, and those whose process has not run yet.
\<close>

definition outstanding :: "sim \<Rightarrow> nat" where
  "outstanding st =
     length (put_queue st) + length (grants (queue st)) + length (inits (queue st))"

text \<open>The arrival process has not started yet: its initialisation event is pending.\<close>

definition unstarted :: "sim \<Rightarrow> bool" where
  "unstarted st = (\<exists>y\<in>set (queue st). starts_arrivals y)"

text \<open>
  Every customer created so far has left a waiting time or is outstanding; the arrival
  process is resumed by one pending event at most, and it has created nobody before it
  has started.
\<close>

definition accounted :: "sim \<Rightarrow> bool" where
  "accounted st =
     (customer_id st = length (waiting_times st) + outstanding st \<and>
      length (filter wakes_arrivals (queue st)) \<le> 1 \<and>
      (unstarted st \<longrightarrow> customer_id st = 0))"

text \<open>A state with another trace in place of its own.\<close>

definition with_stdout :: "msg list \<Rightarrow> sim \<Rightarrow> sim" where
  "with_stdout out st = st\<lparr>stdout := out\<rparr>"

subsection \<open>Sample inputs\<close>

text \<open>
  A generator whose every draw is one; a store with the lists of two runs, the second of
  which served nobody; and the results of these two runs.
\<close>

definition unit_draws :: rng where
  "unit_draws = (\<lambda>n. 1)"

definition sample_store :: store where
  "sample_store = [[1, 3], [2, 2], [], []]"

definition busy_run :: run_result where
  "busy_run =
     \<lparr>run_number = 1, customers_served = 2, avg_waiting_time = 2, max_waiting_time = 3,
      avg_service_time = 2, waiting_times_ref = 0, service_times_ref = 1\<rparr>"

definition idle_run :: run_result where
  "idle_run =
     \<lparr>run_number = 2, customers_served = 0, avg_waiting_time = 0, max_waiting_time = 0,
      avg_service_time = 0, waiting_times_ref = 2, service_times_ref = 3\<rparr>"

text \<open>The state in which a run of half a minute ends when the first customer is due after one.\<close>

definition idle_state :: sim where
  "idle_state =
     \<lparr>now = 1 / 2, queue = [(1, 1, 2, ArrivalTimeout)], eid = 3, capacity = 1, users = [],
      put_queue = [], customer_id = 0, waiting_times = [], service_times = [],
      generator = unit_draws, stdout = []\<rparr>"

section \<open>Properties\<close>

subsection \<open>Aggregation\<close>

lemma then_do_Inr: "then_do (Inr v) f = f v"
  by (simp add: then_do_def)

lemma guarded_mean:
  "(if data \<noteq> [] then mean data else Inr 0) =
   Inr (if data \<noteq> [] then sum_list data / real (length data) else 0)"
  by (simp add: mean_def)

lemma guarded_max:
  "(if data \<noteq> [] then py_max data else Inr 0) =
   Inr (if data \<noteq> [] then fold max (tl data) (hd data) else 0)"
  by (cases data) (simp_all add: py_max_def)

lemma guarded_stdev:
  "(if 1 < length data then stdev data else Inr 0) =
   Inr (if 1 < length data
        then sqrt (sum_list (map (\<lambda>x. (x - sum_list data / real (length data))\<^sup>2) data)
                   / real (length data - 1))
        else 0)"
  by (auto simp add: stdev_def mean_def then_do_def)

lemma guarded_ci:
  "(if 1 < length data
    then then_do (mean data) (\<lambda>m. then_do (half_width data) (\<lambda>w. Inr (f m w)))
    else Inr 0) =
   Inr (if 1 < length data
        then f (sum_list data / real (length data))
               (196 / 100 *
                sqrt (sum_list (map (\<lambda>x. (x - sum_list data / real (length data))\<^sup>2) data)
                      / real (length data - 1))
                / sqrt (real (length data)))
        else 0)"
  by (auto simp add: half_width_def stdev_def mean_def then_do_def truediv_def)

lemma flatten_frame:
  "\<forall>s\<in>set xs. waiting_times_ref s < length h \<and> service_times_ref s < length h \<Longrightarrow>
   flatten (length h) (Suc (length h)) xs (h @ [A, B]) =
   h @ [A @ concat (map (\<lambda>s. h ! waiting_times_ref s) xs),
        B @ concat (map (\<lambda>s. h ! service_times_ref s) xs)]"
proof (induction xs arbitrary: A B)
  case Nil
  then show ?case by simp
next
  case (Cons s xs)
  then have w: "waiting_times_ref s < length h" and v: "service_times_ref s < length h"
    and rest: "\<forall>s\<in>set xs. waiting_times_ref s < length h \<and> service_times_ref s < length h"
    by simp_all
  have one: "(let h1 = list_extend (length h) ((h @ [A, B]) ! waiting_times_ref s) (h @ [A, B])
              in list_extend (Suc (length h)) (h1 ! service_times_ref s) h1) =
             h @ [A @ h ! waiting_times_ref s, B @ h ! service_times_ref s]"
    using w v by (simp add: list_extend_def Let_def nth_append list_update_append)
  show ?case
    by (simp only: flatten.simps one Cons.IH[OF rest]) simp
qed

lemma calculate_frame:
  assumes "\<forall>s\<in>set xs. waiting_times_ref s < length h \<and> service_times_ref s < length h"
    and "xs \<noteq> []"
  shows "calculate_overall_statistics h xs =
         (then_do (overall xs (concat (map (\<lambda>s. h ! waiting_times_ref s) xs))
                              (concat (map (\<lambda>s. h ! service_times_ref s) xs)))
                  (\<lambda>d. Inr (Some d)),
          h @ [concat (map (\<lambda>s. h ! waiting_times_ref s) xs),
               concat (map (\<lambda>s. h ! service_times_ref s) xs)])"
  using assms(2) flatten_frame[OF assms(1), of "[]" "[]"]
  by (simp add: calculate_overall_statistics_def new_list_def Let_def nth_append)

lemma sum_list_of_int:
  "sum_list (map (\<lambda>x. real_of_int (f x)) xs) = real_of_int (sum_list (map f xs))"
  by (induction xs) simp_all

lemma overall_fields:
  assumes "all_stats \<noteq> []"
  shows "\<exists>d. overall all_stats ws ss = Inr d \<and>
     total_runs d = int (length all_stats) \<and>
     avg_customers_per_run d =
       real_of_int (sum_list (map customers_served all_stats)) / real (length all_stats) \<and>
     (if map avg_waiting_time (filter (\<lambda>stats. customers_served stats > 0) all_stats) \<noteq> []
        then mean (map avg_waiting_time (filter (\<lambda>stats. customers_served stats > 0) all_stats))
        else Inr 0) = Inr (mean_avg_waiting_time d) \<and>
     (if 1 < length (map avg_waiting_time (filter (\<lambda>stats. customers_served stats > 0) all_stats))
        then stdev (map avg_waiting_time (filter (\<lambda>stats. customers_served stats > 0) all_stats))
        else Inr 0) = Inr (std_avg_waiting_time d) \<and>
     (if map max_waiting_time (filter (\<lambda>stats. customers_served stats > 0) all_stats) \<noteq> []
        then mean (map max_waiting_time (filter (\<lambda>stats. customers_served stats > 0) all_stats))
        else Inr 0) = Inr (mean_max_waiting_time d) \<and>
     (if map avg_service_time (filter (\<lambda>stats. customers_served stats > 0) all_stats) \<noteq> []
        then mean (map avg_service_time (filter (\<lambda>stats. customers_served stats > 0) all_stats))
        else Inr 0) = Inr (mean_avg_service_time d)"
proof -
  have c: "mean (map real_of_int (map customers_served all_stats)) =
      Inr (real_of_int (sum_list (map customers_served all_stats)) / real (length all_stats))"
    using assms by (simp add: mean_def o_def sum_list_of_int)
  show ?thesis
    unfolding overall_def Let_def
    by (simp only: c guarded_mean guarded_max guarded_stdev guarded_ci then_do_Inr) simp
qed

subsection \<open>The event queue\<close>

lemma set_heappush: "set (heappush x q) = insert x (set q)"
  by (induction q) auto

lemma before_trans: "before x y \<Longrightarrow> \<not> before z y \<Longrightarrow> before x z"
  by (cases x; cases y; cases z) auto

lemma before_asym: "before x y \<Longrightarrow> \<not> before y x"
  by (cases x; cases y) auto

lemma before_time: "\<not> before y x \<Longrightarrow> fst x \<le> fst y"
  by (cases x; cases y) auto

lemma ordered_heappush: "ordered q \<Longrightarrow> ordered (heappush x q)"
proof (induction q)
  case Nil
  then show ?case by (simp add: ordered_def)
next
  case (Cons y q)
  show ?case
  proof (cases "before x y")
    case True
    have "\<forall>z\<in>set q. \<not> before z x"
    proof
      fix z assume "z \<in> set q"
      then have "\<not> before z y" using Cons.prems by (simp add: ordered_def)
      then show "\<not> before z x"
        using True before_trans[of z x y] before_asym[of x y] by (cases "before z x") auto
    qed
    with True Cons.prems show ?thesis by (simp add: ordered_def before_asym)
  next
    case False
    with Cons show ?thesis by (auto simp add: ordered_def set_heappush)
  qed
qed

lemma ordered_times: "ordered (x # q) \<Longrightarrow> \<forall>y\<in>set q. fst x \<le> fst y"
  by (auto simp add: ordered_def before_time)

lemma ordered_tail: "ordered (x # q) \<Longrightarrow> ordered q"
  by (simp add: ordered_def)

lemma length_concat_heappush:
  "length (concat (map f (heappush x q))) = length (f x) + length (concat (map f q))"
  by (induction q) auto

lemma set_concat_heappush:
  "set (concat (map f (heappush x q))) = set (f x) \<union> set (concat (map f q))"
  by (induction q) auto

lemma concat_heappush_none:
  "f x = [] \<Longrightarrow> concat (map f (heappush x q)) = concat (map f q)"
  by (induction q) auto

lemma concat_heappush_last:
  "ordered q \<Longrightarrow> \<forall>y\<in>set q. f y \<noteq> [] \<longrightarrow> \<not> before x y \<Longrightarrow>
   concat (map f (heappush x q)) = concat (map f q) @ f x"
proof (induction q)
  case Nil
  then show ?case by simp
next
  case (Cons y q)
  show ?case
  proof (cases "before x y")
    case True
    have "\<forall>z\<in>set (y # q). f z = []"
    proof
      fix z assume z: "z \<in> set (y # q)"
      have "before x z"
      proof (cases "z = y")
        case True
        with \<open>before x y\<close> show ?thesis by simp
      next
        case False
        with z Cons.prems(1) have "\<not> before z y" by (auto simp add: ordered_def)
        with \<open>before x y\<close> show ?thesis by (rule before_trans)
      qed
      with z Cons.prems(2) show "f z = []" by blast
    qed
    then have fy: "f y = []" and fq: "concat (map f q) = []" by auto
    show ?thesis using True by (simp add: fy fq)
  next
    case False
    with Cons show ?thesis by (simp add: ordered_def)
  qed
qed

lemma length_filter_heappush:
  "length (filter P (heappush x q)) = length (filter P (x # q))"
  by (induction q) auto

subsection \<open>Fields after the primitive operations\<close>

lemma schedule_simps [simp]:
  "now (schedule e p d st) = now st"
  "queue (schedule e p d st) = heappush (now st + d, p, eid st, e) (queue st)"
  "eid (schedule e p d st) = Suc (eid st)"
  "capacity (schedule e p d st) = capacity st"
  "users (schedule e p d st) = users st"
  "put_queue (schedule e p d st) = put_queue st"
  "customer_id (schedule e p d st) = customer_id st"
  "waiting_times (schedule e p d st) = waiting_times st"
  "service_times (schedule e p d st) = service_times st"
  "generator (schedule e p d st) = generator st"
  "stdout (schedule e p d st) = stdout st"
  by (simp_all add: schedule_def)

lemma say_simps [simp]:
  "now (say v m st) = now st"
  "queue (say v m st) = queue st"
  "eid (say v m st) = eid st"
  "capacity (say v m st) = capacity st"
  "users (say v m st) = users st"
  "put_queue (say v m st) = put_queue st"
  "customer_id (say v m st) = customer_id st"
  "waiting_times (say v m st) = waiting_times st"
  "service_times (say v m st) = service_times st"
  "generator (say v m st) = generator st"
  "stdout (say v m st) = (if v then stdout st @ [m] else stdout st)"
  by (simp_all add: say_def)

text \<open>A property kept by every step holds along the loop.\<close>

lemma step_pop:
  assumes "step mi ms v st = (sig, st')" and "queue st \<noteq> []"
  obtains t p i e rest where "queue st = (t, p, i, e) # rest"
    and "dispatch mi ms v e (st\<lparr>now := t, queue := rest\<rparr>) = (sig, st')"
proof -
  obtain x rest where q: "queue st = x # rest" using assms(2) by (cases "queue st") auto
  obtain t p i e where x: "x = (t, p, i, e)" by (cases x) auto
  show ?thesis
    using assms(1) q x by (intro that[of t p i e rest]) (simp_all add: step_def)
qed

lemma step_empty: "queue st = [] \<Longrightarrow> step mi ms v st = (sig, st') \<Longrightarrow> st' = st"
  by (simp add: step_def)

lemma steps_keep:
  assumes keep: "\<And>st sig st'. P st \<Longrightarrow> step mi ms v st = (sig, st') \<Longrightarrow> P st'"
    and "P st"
  shows "P (steps k mi ms v st)"
  using assms(2)
proof (induction k arbitrary: st)
  case 0
  then show ?case by simp
next
  case (Suc k)
  obtain sig st' where s: "step mi ms v st = (sig, st')" by (cases "step mi ms v st") auto
  have "P st'" using Suc.prems s by (rule keep)
  with s Suc.IH show ?case by (cases sig) simp_all
qed

lemma run_loop_keep:
  assumes keep: "\<And>st sig st'. P st \<Longrightarrow> step mi ms v st = (sig, st') \<Longrightarrow> P st'"
    and "P st" and "run_loop k mi ms v st = Some (Inr st')"
  shows "P st'"
  using assms(2,3)
proof (induction k arbitrary: st)
  case 0
  then show ?case by simp
next
  case (Suc k)
  obtain sig st1 where s: "step mi ms v st = (sig, st1)" by (cases "step mi ms v st") auto
  have "P st1" using Suc.prems(1) s by (rule keep)
  with s Suc show ?case by (cases sig) simp_all
qed

subsection \<open>The clock\<close>

lemma clock_fields [simp]:
  "clock_ok (st\<lparr>users := u\<rparr>) = clock_ok st"
  "clock_ok (st\<lparr>put_queue := pq\<rparr>) = clock_ok st"
  "clock_ok (st\<lparr>customer_id := n\<rparr>) = clock_ok st"
  "clock_ok (st\<lparr>waiting_times := w\<rparr>) = clock_ok st"
  "clock_ok (st\<lparr>service_times := s\<rparr>) = clock_ok st"
  "clock_ok (st\<lparr>generator := g\<rparr>) = clock_ok st"
  "clock_ok (st\<lparr>stdout := out\<rparr>) = clock_ok st"
  by (simp_all add: clock_ok_def)

lemma clock_schedule: "clock_ok st \<Longrightarrow> 0 \<le> d \<Longrightarrow> clock_ok (schedule e p d st)"
  by (auto simp add: clock_ok_def set_heappush ordered_heappush)

lemma clock_fail: "clock_ok st \<Longrightarrow> clock_ok (fail err st)"
  by (simp add: fail_def clock_schedule)

lemma clock_say: "clock_ok st \<Longrightarrow> clock_ok (say v m st)"
  by (simp add: say_def)

lemma clock_trigger_put: "clock_ok st \<Longrightarrow> clock_ok (trigger_put st)"
  by (simp add: trigger_put_def clock_schedule split: list.splits)

lemma clock_request: "clock_ok st \<Longrightarrow> clock_ok (request r st)"
  by (simp add: request_def clock_trigger_put)

lemma clock_release: "clock_ok st \<Longrightarrow> clock_ok (release r st)"
  by (simp add: release_def clock_schedule)

lemma clock_arrivals_wait: "clock_ok st \<Longrightarrow> clock_ok (arrivals_wait mi st)"
  by (simp add: arrivals_wait_def clock_fail clock_schedule split: prod.splits sum.splits)

lemma clock_arrivals_spawn: "clock_ok st \<Longrightarrow> clock_ok (arrivals_spawn mi st)"
  by (simp add: arrivals_spawn_def Let_def clock_arrivals_wait clock_schedule)

lemma clock_customer_arrive: "clock_ok st \<Longrightarrow> clock_ok (customer_arrive v n st)"
  by (simp add: customer_arrive_def Let_def clock_request clock_say)

lemma clock_customer_serve: "clock_ok st \<Longrightarrow> clock_ok (customer_serve ms v r st)"
  by (simp add: customer_serve_def Let_def clock_fail clock_release clock_schedule clock_say
           split: prod.splits sum.splits)

lemma clock_customer_leave: "clock_ok st \<Longrightarrow> clock_ok (customer_leave v r st)"
  by (simp add: customer_leave_def clock_schedule clock_release clock_say)

lemma clock_pop:
  "clock_ok st \<Longrightarrow> queue st = (t, p, i, e) # rest \<Longrightarrow> clock_ok (st\<lparr>now := t, queue := rest\<rparr>)"
  using ordered_times[of "(t, p, i, e)" rest] ordered_tail[of "(t, p, i, e)" rest]
  by (auto simp add: clock_ok_def)

lemma clock_dispatch:
  "clock_ok st \<Longrightarrow> dispatch mi ms v e st = (sig, st') \<Longrightarrow> clock_ok st'"
  by (cases e) (auto simp add: clock_arrivals_wait clock_arrivals_spawn clock_customer_arrive
        clock_customer_serve clock_customer_leave clock_trigger_put)

lemma clock_step:
  assumes "clock_ok st" and "step mi ms v st = (sig, st')"
  shows "clock_ok st'"
proof (cases "queue st = []")
  case True
  with assms step_empty[OF True assms(2)] show ?thesis by simp
next
  case False
  from assms(2) False obtain t p i e rest where q: "queue st = (t, p, i, e) # rest"
    and d: "dispatch mi ms v e (st\<lparr>now := t, queue := rest\<rparr>) = (sig, st')"
    by (rule step_pop)
  from clock_pop[OF assms(1) q] d show ?thesis by (rule clock_dispatch)
qed

lemma fail_simps [simp]:
  "now (fail err st) = now st"
  "capacity (fail err st) = capacity st"
  "users (fail err st) = users st"
  "put_queue (fail err st) = put_queue st"
  "customer_id (fail err st) = customer_id st"
  "waiting_times (fail err st) = waiting_times st"
  "service_times (fail err st) = service_times st"
  "generator (fail err st) = generator st"
  "stdout (fail err st) = stdout st"
  by (simp_all add: fail_def)

lemma trigger_put_simps [simp]:
  "now (trigger_put st) = now st"
  "capacity (trigger_put st) = capacity st"
  "customer_id (trigger_put st) = customer_id st"
  "waiting_times (trigger_put st) = waiting_times st"
  "service_times (trigger_put st) = service_times st"
  "generator (trigger_put st) = generator st"
  "stdout (trigger_put st) = stdout st"
  by (simp_all add: trigger_put_def split: list.splits)

lemma request_simps [simp]:
  "now (request r st) = now st"
  "capacity (request r st) = capacity st"
  "customer_id (request r st) = customer_id st"
  "waiting_times (request r st) = waiting_times st"
  "service_times (request r st) = service_times st"
  "generator (request r st) = generator st"
  "stdout (request r st) = stdout st"
  by (simp_all add: request_def)

lemma release_simps [simp]:
  "now (release r st) = now st"
  "capacity (release r st) = capacity st"
  "users (release r st) = remove1 r (users st)"
  "put_queue (release r st) = put_queue st"
  "customer_id (release r st) = customer_id st"
  "waiting_times (release r st) = waiting_times st"
  "service_times (release r st) = service_times st"
  "generator (release r st) = generator st"
  "stdout (release r st) = stdout st"
  by (simp_all add: release_def)

subsection \<open>Arrival times\<close>

lemma grants_Nil [simp]: "grants [] = []"
  by (simp add: grants_def)

lemma grants_Cons [simp]: "grants (x # q) = grant_of x @ grants q"
  by (simp add: grants_def)

lemma set_grants_heappush: "set (grants (heappush x q)) = set (grant_of x) \<union> set (grants q)"
  unfolding grants_def by (rule set_concat_heappush)

lemma arrivals_fields [simp]:
  "arrivals_ok (st\<lparr>users := u\<rparr>) = arrivals_ok st"
  "arrivals_ok (st\<lparr>customer_id := n\<rparr>) = arrivals_ok st"
  "arrivals_ok (st\<lparr>waiting_times := w\<rparr>) = arrivals_ok st"
  "arrivals_ok (st\<lparr>service_times := s\<rparr>) = arrivals_ok st"
  "arrivals_ok (st\<lparr>generator := g\<rparr>) = arrivals_ok st"
  "arrivals_ok (st\<lparr>stdout := out\<rparr>) = arrivals_ok st"
  by (simp_all add: arrivals_ok_def)

lemma arrivals_schedule:
  "arrivals_ok st \<Longrightarrow> (case e of Granted r \<Rightarrow> snd r \<le> now st | other \<Rightarrow> True) \<Longrightarrow>
   arrivals_ok (schedule e p d st)"
  by (cases e) (auto simp add: arrivals_ok_def set_grants_heappush)

lemma arrivals_fail: "arrivals_ok st \<Longrightarrow> arrivals_ok (fail err st)"
  by (simp add: fail_def arrivals_schedule)

lemma arrivals_say: "arrivals_ok st \<Longrightarrow> arrivals_ok (say v m st)"
  by (simp add: say_def)

lemma arrivals_trigger_put: "arrivals_ok st \<Longrightarrow> arrivals_ok (trigger_put st)"
proof (cases "put_queue st")
  case Nil
  then show "arrivals_ok st \<Longrightarrow> ?thesis" by (simp add: trigger_put_def)
next
  case (Cons r rest)
  assume a: "arrivals_ok st"
  have "arrivals_ok (st\<lparr>users := users st @ [r], put_queue := rest\<rparr>)"
    using a Cons by (simp add: arrivals_ok_def)
  moreover have "snd r \<le> now st" using a Cons by (simp add: arrivals_ok_def)
  ultimately have "arrivals_ok (schedule (Granted r) NORMAL 0
      (st\<lparr>users := users st @ [r], put_queue := rest\<rparr>))"
    by (intro arrivals_schedule) simp_all
  with a Cons show ?thesis by (simp add: trigger_put_def)
qed

lemma arrivals_request:
  "arrivals_ok st \<Longrightarrow> snd r \<le> now st \<Longrightarrow> arrivals_ok (request r st)"
  unfolding request_def by (rule arrivals_trigger_put) (simp add: arrivals_ok_def)

lemma arrivals_release: "arrivals_ok st \<Longrightarrow> arrivals_ok (release r st)"
  by (simp add: release_def arrivals_schedule)

lemma arrivals_arrivals_wait: "arrivals_ok st \<Longrightarrow> arrivals_ok (arrivals_wait mi st)"
  by (simp add: arrivals_wait_def arrivals_fail arrivals_schedule split: prod.splits sum.splits)

lemma arrivals_arrivals_spawn: "arrivals_ok st \<Longrightarrow> arrivals_ok (arrivals_spawn mi st)"
  by (simp add: arrivals_spawn_def Let_def arrivals_arrivals_wait arrivals_schedule)

lemma arrivals_customer_arrive: "arrivals_ok st \<Longrightarrow> arrivals_ok (customer_arrive v n st)"
  by (simp add: customer_arrive_def Let_def arrivals_request arrivals_say)

lemma arrivals_customer_serve: "arrivals_ok st \<Longrightarrow> arrivals_ok (customer_serve ms v r st)"
  by (simp add: customer_serve_def Let_def arrivals_fail arrivals_release arrivals_schedule
        arrivals_say split: prod.splits sum.splits)

lemma arrivals_customer_leave: "arrivals_ok st \<Longrightarrow> arrivals_ok (customer_leave v r st)"
  by (simp add: customer_leave_def arrivals_schedule arrivals_release arrivals_say)

lemma arrivals_dispatch:
  "arrivals_ok st \<Longrightarrow> dispatch mi ms v e st = (sig, st') \<Longrightarrow> arrivals_ok st'"
  by (cases e) (auto simp add: arrivals_arrivals_wait arrivals_arrivals_spawn
        arrivals_customer_arrive arrivals_customer_serve arrivals_customer_leave
        arrivals_trigger_put)

lemma arrivals_pop:
  assumes "arrivals_ok st" and "clock_ok st" and "queue st = (t, p, i, e) # rest"
  shows "arrivals_ok (st\<lparr>now := t, queue := rest\<rparr>)"
    and "\<And>r. e = Granted r \<Longrightarrow> snd r \<le> t"
proof -
  have t: "now st \<le> t" using assms(2,3) by (simp add: clock_ok_def)
  have old: "\<And>r. r \<in> set (put_queue st) \<or> r \<in> set (grants (queue st)) \<Longrightarrow> snd r \<le> t"
  proof -
    fix r assume "r \<in> set (put_queue st) \<or> r \<in> set (grants (queue st))"
    then have "snd r \<le> now st" using assms(1) by (auto simp add: arrivals_ok_def)
    with t show "snd r \<le> t" by simp
  qed
  show "arrivals_ok (st\<lparr>now := t, queue := rest\<rparr>)"
    using old by (simp add: arrivals_ok_def assms(3))
  show "\<And>r. e = Granted r \<Longrightarrow> snd r \<le> t"
    using old by (simp add: assms(3))
qed

subsection \<open>Observations\<close>

lemma draws_shift: "exponential_draws g \<Longrightarrow> exponential_draws (\<lambda>n. g (Suc n))"
  by (simp add: exponential_draws_def)

lemma draws_head: "exponential_draws g \<Longrightarrow> 0 \<le> g 0"
  by (simp add: exponential_draws_def)

lemma generator_arrivals_wait:
  "exponential_draws (generator st) \<Longrightarrow> exponential_draws (generator (arrivals_wait mi st))"
  by (simp add: arrivals_wait_def expovariate_def random_draw_def draws_shift)

lemma generator_customer_serve:
  "exponential_draws (generator st) \<Longrightarrow> exponential_draws (generator (customer_serve ms v r st))"
  by (simp add: customer_serve_def Let_def expovariate_def random_draw_def draws_shift)

lemma generator_dispatch:
  "exponential_draws (generator st) \<Longrightarrow> dispatch mi ms v e st = (sig, st') \<Longrightarrow>
   exponential_draws (generator st')"
  by (cases e) (auto simp add: generator_arrivals_wait generator_customer_serve
        arrivals_spawn_def Let_def customer_arrive_def customer_leave_def)

lemma observations_arrivals_wait:
  "observations_ok (arrivals_wait mi st) = observations_ok st"
  by (simp add: observations_ok_def arrivals_wait_def expovariate_def random_draw_def)

lemma observations_customer_serve:
  assumes "observations_ok st" and "snd r \<le> now st" and "0 \<le> ms"
    and "exponential_draws (generator st)"
  shows "observations_ok (customer_serve ms v r st)"
proof -
  have "0 \<le> generator st 0" using assms(4) by (rule draws_head)
  then have "0 \<le> generator st 0 * ms" using assms(3) by simp
  then show ?thesis
    using assms(1,2)
    by (simp add: observations_ok_def customer_serve_def Let_def expovariate_def random_draw_def)
qed

lemma observations_dispatch:
  assumes "observations_ok st" and "\<And>r. e = Granted r \<Longrightarrow> snd r \<le> now st" and "0 \<le> ms"
    and "exponential_draws (generator st)" and "dispatch mi ms v e st = (sig, st')"
  shows "observations_ok st'"
proof (cases e)
  case (Granted r)
  with assms show ?thesis by (auto simp add: observations_customer_serve)
next
  case InitArrivals
  with assms show ?thesis
    by (auto simp add: observations_arrivals_wait) (simp add: observations_ok_def)
next
  case ArrivalTimeout
  with assms show ?thesis
    by (auto simp add: arrivals_spawn_def Let_def observations_arrivals_wait)
       (simp add: observations_ok_def)
qed (use assms in \<open>auto simp add: observations_ok_def customer_arrive_def customer_leave_def Let_def\<close>)

subsection \<open>Timing\<close>

lemma timing_step:
  assumes "timing_ok st" and "0 \<le> ms" and "step mi ms v st = (sig, st')"
  shows "timing_ok st'"
proof (cases "queue st = []")
  case True
  with assms step_empty[OF True assms(3)] show ?thesis by simp
next
  case False
  from assms(3) False obtain t p i e rest where q: "queue st = (t, p, i, e) # rest"
    and d: "dispatch mi ms v e (st\<lparr>now := t, queue := rest\<rparr>) = (sig, st')"
    by (rule step_pop)
  let ?st1 = "st\<lparr>now := t, queue := rest\<rparr>"
  have c: "clock_ok st" and a: "arrivals_ok st" and b: "observations_ok st"
    and g: "exponential_draws (generator st)"
    using assms(1) by (simp_all add: timing_ok_def)
  have c1: "clock_ok ?st1" using c q by (rule clock_pop)
  have a1: "arrivals_ok ?st1" using a c q by (rule arrivals_pop(1))
  have r1: "\<And>r. e = Granted r \<Longrightarrow> snd r \<le> now ?st1"
    using arrivals_pop(2)[OF a c q] by simp
  have b1: "observations_ok ?st1" using b by (simp add: observations_ok_def)
  have g1: "exponential_draws (generator ?st1)" using g by simp
  show ?thesis
    unfolding timing_ok_def
    using clock_dispatch[OF c1 d] arrivals_dispatch[OF a1 d]
      observations_dispatch[OF b1 r1 assms(2) g1 d] generator_dispatch[OF g1 d]
    by simp
qed

lemma timing_started:
  "0 \<le> sim_time \<Longrightarrow> exponential_draws g \<Longrightarrow> timing_ok (started nt sim_time g)"
  by (simp add: timing_ok_def started_def new_sim_def clock_ok_def arrivals_ok_def
        observations_ok_def schedule_def ordered_def URGENT_def)

subsection \<open>The teller pool\<close>

lemma pool_fields [simp]:
  "pool_ok (st\<lparr>now := t\<rparr>) = pool_ok st"
  "pool_ok (st\<lparr>queue := q\<rparr>) = pool_ok st"
  "pool_ok (st\<lparr>put_queue := pq\<rparr>) = pool_ok st"
  "pool_ok (st\<lparr>customer_id := n\<rparr>) = pool_ok st"
  "pool_ok (st\<lparr>waiting_times := w\<rparr>) = pool_ok st"
  "pool_ok (st\<lparr>service_times := s\<rparr>) = pool_ok st"
  "pool_ok (st\<lparr>generator := g\<rparr>) = pool_ok st"
  "pool_ok (st\<lparr>stdout := out\<rparr>) = pool_ok st"
  "pool_ok (schedule e p d st) = pool_ok st"
  "pool_ok (fail err st) = pool_ok st"
  "pool_ok (say v m st) = pool_ok st"
  by (simp_all add: pool_ok_def)

lemma pool_trigger_put: "pool_ok st \<Longrightarrow> pool_ok (trigger_put st)"
  by (cases "put_queue st") (simp_all add: trigger_put_def, simp add: pool_ok_def)

lemma pool_request: "pool_ok st \<Longrightarrow> pool_ok (request r st)"
  by (simp add: request_def pool_trigger_put)

lemma pool_release: "pool_ok st \<Longrightarrow> pool_ok (release r st)"
proof -
  assume "pool_ok st"
  moreover have "length (remove1 r (users st)) \<le> length (users st)"
    by (simp add: length_remove1)
  ultimately show ?thesis by (simp add: pool_ok_def)
qed

lemma pool_arrivals_wait: "pool_ok st \<Longrightarrow> pool_ok (arrivals_wait mi st)"
  by (simp add: arrivals_wait_def split: prod.splits sum.splits)

lemma pool_customer_serve: "pool_ok st \<Longrightarrow> pool_ok (customer_serve ms v r st)"
  by (simp add: customer_serve_def Let_def pool_release split: prod.splits sum.splits)

lemma pool_dispatch:
  "pool_ok st \<Longrightarrow> dispatch mi ms v e st = (sig, st') \<Longrightarrow> pool_ok st'"
  by (cases e) (auto simp add: pool_arrivals_wait arrivals_spawn_def customer_arrive_def
        customer_leave_def Let_def pool_request pool_release pool_customer_serve
        pool_trigger_put)

lemma pool_step:
  assumes "pool_ok st" and "step mi ms v st = (sig, st')"
  shows "pool_ok st'"
proof (cases "queue st = []")
  case True
  with assms step_empty[OF True assms(2)] show ?thesis by simp
next
  case False
  from assms(2) False obtain t p i e rest where q: "queue st = (t, p, i, e) # rest"
    and d: "dispatch mi ms v e (st\<lparr>now := t, queue := rest\<rparr>) = (sig, st')"
    by (rule step_pop)
  have "pool_ok (st\<lparr>now := t, queue := rest\<rparr>)" using assms(1) by simp
  then show ?thesis using d by (rule pool_dispatch)
qed

lemma pool_started: "0 \<le> nt \<Longrightarrow> pool_ok (started nt sim_time g)"
  by (simp add: started_def new_sim_def pool_ok_def)

lemma pool_steps: "pool_ok st \<Longrightarrow> pool_ok (steps k mi ms v st)"
  by (rule steps_keep[where P = pool_ok]) (auto elim: pool_step)

lemma capacity_dispatch: "dispatch mi ms v e st = (sig, st') \<Longrightarrow> capacity st' = capacity st"
  by (cases e) (auto simp add: arrivals_wait_def arrivals_spawn_def customer_arrive_def
        customer_serve_def customer_leave_def Let_def split: prod.splits sum.splits)

lemma capacity_step: "step mi ms v st = (sig, st') \<Longrightarrow> capacity st' = capacity st"
  by (cases "queue st") (auto simp add: step_def dest: capacity_dispatch)

lemma capacity_steps: "capacity (steps k mi ms v st) = capacity st"
  by (rule steps_keep[where P = "\<lambda>s. capacity s = capacity st"]) (auto dest: capacity_step)

subsection \<open>No service time without a wait\<close>

lemma lengths_customer_serve:
  "length (service_times st) \<le> length (waiting_times st) \<Longrightarrow>
   length (service_times (customer_serve ms v r st))
     \<le> length (waiting_times (customer_serve ms v r st))"
  by (simp add: customer_serve_def Let_def expovariate_def random_draw_def)

lemma lengths_arrivals_wait [simp]:
  "waiting_times (arrivals_wait mi st) = waiting_times st"
  "service_times (arrivals_wait mi st) = service_times st"
  by (simp_all add: arrivals_wait_def expovariate_def random_draw_def)

lemma lengths_dispatch:
  "length (service_times st) \<le> length (waiting_times st) \<Longrightarrow>
   dispatch mi ms v e st = (sig, st') \<Longrightarrow>
   length (service_times st') \<le> length (waiting_times st')"
  by (cases e) (auto simp add: lengths_customer_serve arrivals_spawn_def customer_arrive_def
        customer_leave_def Let_def)

lemma lengths_step:
  assumes "length (service_times st) \<le> length (waiting_times st)"
    and "step mi ms v st = (sig, st')"
  shows "length (service_times st') \<le> length (waiting_times st')"
proof (cases "queue st = []")
  case True
  with assms step_empty[OF True assms(2)] show ?thesis by simp
next
  case False
  from assms(2) False obtain t p i e rest where q: "queue st = (t, p, i, e) # rest"
    and d: "dispatch mi ms v e (st\<lparr>now := t, queue := rest\<rparr>) = (sig, st')"
    by (rule step_pop)
  show ?thesis by (rule lengths_dispatch[OF _ d]) (use assms(1) in simp)
qed

lemma lengths_run_loop:
  "length (service_times st) \<le> length (waiting_times st) \<Longrightarrow>
   run_loop k mi ms v st = Some (Inr st') \<Longrightarrow>
   length (service_times st') \<le> length (waiting_times st')"
  by (rule run_loop_keep[where P = "\<lambda>s. length (service_times s) \<le> length (waiting_times s)"])
     (auto elim: lengths_step)

lemma lengths_simulate:
  "simulate fuel nt mi ms sim_time v g = Some (Inr st) \<Longrightarrow>
   length (service_times st) \<le> length (waiting_times st)"
  by (auto simp add: simulate_def started_def new_sim_def split: if_splits
        intro: lengths_run_loop[rotated])

subsection \<open>Accounting for the customers\<close>

lemma inits_Nil [simp]: "inits [] = []"
  by (simp add: inits_def)

lemma inits_Cons [simp]: "inits (x # q) = init_of x @ inits q"
  by (simp add: inits_def)

lemma length_grants_heappush [simp]:
  "length (grants (heappush x q)) = length (grant_of x) + length (grants q)"
  unfolding grants_def by (rule length_concat_heappush)

lemma length_inits_heappush [simp]:
  "length (inits (heappush x q)) = length (init_of x) + length (inits q)"
  unfolding inits_def by (rule length_concat_heappush)

lemma outstanding_fields [simp]:
  "outstanding (st\<lparr>now := t\<rparr>) = outstanding st"
  "outstanding (st\<lparr>users := u\<rparr>) = outstanding st"
  "outstanding (st\<lparr>customer_id := n\<rparr>) = outstanding st"
  "outstanding (st\<lparr>waiting_times := w\<rparr>) = outstanding st"
  "outstanding (st\<lparr>service_times := s\<rparr>) = outstanding st"
  "outstanding (st\<lparr>generator := g\<rparr>) = outstanding st"
  "outstanding (st\<lparr>stdout := out\<rparr>) = outstanding st"
  "outstanding (say v m st) = outstanding st"
  by (simp_all add: outstanding_def)

lemma outstanding_schedule:
  "outstanding (schedule e p d st) =
   outstanding st + length (grant_of (now st + d, p, eid st, e)) +
   length (init_of (now st + d, p, eid st, e))"
  by (simp add: outstanding_def)

lemma outstanding_fail [simp]: "outstanding (fail err st) = outstanding st"
  by (simp add: fail_def outstanding_schedule)

lemma outstanding_trigger_put [simp]: "outstanding (trigger_put st) = outstanding st"
  by (cases "put_queue st") (simp_all add: trigger_put_def outstanding_def)

lemma outstanding_request [simp]: "outstanding (request r st) = Suc (outstanding st)"
proof -
  have "outstanding (st\<lparr>put_queue := put_queue st @ [r]\<rparr>) = Suc (outstanding st)"
    by (simp add: outstanding_def)
  then show ?thesis by (simp add: request_def)
qed

lemma outstanding_release [simp]: "outstanding (release r st) = outstanding st"
  by (simp add: release_def outstanding_schedule)

lemma outstanding_arrivals_wait [simp]: "outstanding (arrivals_wait mi st) = outstanding st"
  by (simp add: arrivals_wait_def outstanding_schedule expovariate_def random_draw_def)

lemma outstanding_arrivals_spawn [simp]:
  "outstanding (arrivals_spawn mi st) = Suc (outstanding st)"
  by (simp add: arrivals_spawn_def Let_def outstanding_schedule)

lemma outstanding_customer_arrive [simp]:
  "outstanding (customer_arrive v n st) = Suc (outstanding st)"
  by (simp add: customer_arrive_def Let_def)

lemma outstanding_customer_serve [simp]:
  "outstanding (customer_serve ms v r st) = outstanding st"
  by (simp add: customer_serve_def Let_def outstanding_schedule expovariate_def random_draw_def)

lemma outstanding_customer_leave [simp]:
  "outstanding (customer_leave v r st) = outstanding st"
  by (simp add: customer_leave_def outstanding_schedule)

lemma outstanding_pop:
  "queue st = x # rest \<Longrightarrow>
   outstanding st =
   outstanding (st\<lparr>now := t, queue := rest\<rparr>) + length (grant_of x) + length (init_of x)"
  by (simp add: outstanding_def)

text \<open>The other fields of the two processes' steps.\<close>

lemma customer_id_simps [simp]:
  "customer_id (arrivals_wait mi st) = customer_id st"
  "customer_id (arrivals_spawn mi st) = Suc (customer_id st)"
  "customer_id (customer_arrive v n st) = customer_id st"
  "customer_id (customer_serve ms v r st) = customer_id st"
  "customer_id (customer_leave v r st) = customer_id st"
  by (simp_all add: arrivals_wait_def arrivals_spawn_def customer_arrive_def
        customer_serve_def customer_leave_def Let_def expovariate_def random_draw_def)

lemma waiting_times_simps [simp]:
  "waiting_times (arrivals_spawn mi st) = waiting_times st"
  "waiting_times (customer_arrive v n st) = waiting_times st"
  "waiting_times (customer_serve ms v r st) = waiting_times st @ [now st - snd r]"
  "waiting_times (customer_leave v r st) = waiting_times st"
  by (simp_all add: arrivals_spawn_def customer_arrive_def
        customer_serve_def customer_leave_def Let_def expovariate_def random_draw_def)

text \<open>The pending events that resume the arrival process.\<close>

lemma wakes_heappush [simp]:
  "length (filter wakes_arrivals (heappush x q)) =
   (if wakes_arrivals x then 1 else 0) + length (filter wakes_arrivals q)"
  by (simp add: length_filter_heappush)

lemma wakes_trigger_put [simp]:
  "length (filter wakes_arrivals (queue (trigger_put st))) =
   length (filter wakes_arrivals (queue st))"
  by (cases "put_queue st") (simp_all add: trigger_put_def)

lemma wakes_request [simp]:
  "length (filter wakes_arrivals (queue (request r st))) =
   length (filter wakes_arrivals (queue st))"
  by (simp add: request_def)

lemma wakes_release [simp]:
  "length (filter wakes_arrivals (queue (release r st))) =
   length (filter wakes_arrivals (queue st))"
  by (simp add: release_def)

lemma wakes_fail [simp]:
  "length (filter wakes_arrivals (queue (fail err st))) =
   length (filter wakes_arrivals (queue st))"
  by (simp add: fail_def)

lemma wakes_arrivals_wait:
  "length (filter wakes_arrivals (queue (arrivals_wait mi st)))
     \<le> Suc (length (filter wakes_arrivals (queue st)))"
  by (simp add: arrivals_wait_def expovariate_def random_draw_def)

lemma wakes_arrivals_spawn:
  "length (filter wakes_arrivals (queue (arrivals_spawn mi st)))
     \<le> Suc (length (filter wakes_arrivals (queue st)))"
proof -
  let ?st1 = "schedule (InitCustomer (Suc (customer_id st))) URGENT 0
      (st\<lparr>customer_id := Suc (customer_id st)\<rparr>)"
  have "length (filter wakes_arrivals (queue ?st1)) = length (filter wakes_arrivals (queue st))"
    by simp
  with wakes_arrivals_wait[of mi ?st1] show ?thesis
    by (simp add: arrivals_spawn_def Let_def)
qed

lemma wakes_customer [simp]:
  "length (filter wakes_arrivals (queue (customer_arrive v n st))) =
   length (filter wakes_arrivals (queue st))"
  "length (filter wakes_arrivals (queue (customer_serve ms v r st))) =
   length (filter wakes_arrivals (queue st))"
  "length (filter wakes_arrivals (queue (customer_leave v r st))) =
   length (filter wakes_arrivals (queue st))"
  by (simp_all add: customer_arrive_def customer_serve_def customer_leave_def Let_def
        expovariate_def random_draw_def)

lemma starts_wakes: "starts_arrivals x \<Longrightarrow> wakes_arrivals x"
  by (cases x rule: starts_arrivals.cases) simp_all

lemma no_wakes_no_starts:
  "length (filter wakes_arrivals q) = 0 \<Longrightarrow> x \<in> set q \<Longrightarrow> \<not> starts_arrivals x"
  by (auto simp add: filter_empty_conv dest: starts_wakes)

text \<open>No step enters an event that starts the arrival process.\<close>

lemma unstarted_schedule:
  "\<not> starts_arrivals (now st + d, p, eid st, e) \<Longrightarrow>
   unstarted (schedule e p d st) = unstarted st"
  by (simp add: unstarted_def set_heappush)

lemma unstarted_fields [simp]:
  "unstarted (st\<lparr>users := u\<rparr>) = unstarted st"
  "unstarted (st\<lparr>put_queue := pq\<rparr>) = unstarted st"
  "unstarted (st\<lparr>customer_id := n\<rparr>) = unstarted st"
  "unstarted (st\<lparr>waiting_times := w\<rparr>) = unstarted st"
  "unstarted (st\<lparr>service_times := s\<rparr>) = unstarted st"
  "unstarted (st\<lparr>generator := g\<rparr>) = unstarted st"
  "unstarted (st\<lparr>stdout := out\<rparr>) = unstarted st"
  "unstarted (say v m st) = unstarted st"
  by (simp_all add: unstarted_def)

lemma unstarted_primitives [simp]:
  "unstarted (fail err st) = unstarted st"
  "unstarted (trigger_put st) = unstarted st"
  "unstarted (request r st) = unstarted st"
  "unstarted (release r st) = unstarted st"
  by (simp_all add: fail_def trigger_put_def request_def release_def unstarted_schedule
        split: list.splits)

lemma unstarted_processes [simp]:
  "unstarted (arrivals_wait mi st) = unstarted st"
  "unstarted (arrivals_spawn mi st) = unstarted st"
  "unstarted (customer_arrive v n st) = unstarted st"
  "unstarted (customer_serve ms v r st) = unstarted st"
  "unstarted (customer_leave v r st) = unstarted st"
  by (simp_all add: arrivals_wait_def arrivals_spawn_def customer_arrive_def
        customer_serve_def customer_leave_def Let_def expovariate_def random_draw_def
        unstarted_schedule)

lemmas accounted_alt = accounted_def

lemma accounted_step:
  assumes "accounted st" and "step mi ms v st = (sig, st')"
  shows "accounted st'"
proof (cases "queue st = []")
  case True
  with assms step_empty[OF True assms(2)] show ?thesis by simp
next
  case False
  from assms(2) False obtain t p i e rest where q: "queue st = (t, p, i, e) # rest"
    and d: "dispatch mi ms v e (st\<lparr>now := t, queue := rest\<rparr>) = (sig, st')"
    by (rule step_pop)
  let ?st1 = "st\<lparr>now := t, queue := rest\<rparr>"
  have id1: "customer_id ?st1 = customer_id st" and wt1: "waiting_times ?st1 = waiting_times st"
    and now1: "now ?st1 = t"
    by simp_all
  have sum: "customer_id st = length (waiting_times st) + outstanding ?st1 +
      length (grant_of (t, p, i, e)) + length (init_of (t, p, i, e))"
    using assms(1) outstanding_pop[OF q, of t] by (simp add: accounted_alt)
  have wakes: "(if wakes_arrivals (t, p, i, e) then 1 else 0) +
      length (filter wakes_arrivals (queue ?st1)) \<le> 1"
    using assms(1) q by (cases "wakes_arrivals (t, p, i, e)") (simp_all add: accounted_alt)
  have un: "starts_arrivals (t, p, i, e) \<or> unstarted ?st1 \<Longrightarrow> customer_id st = 0"
    using assms(1) q by (auto simp add: accounted_alt unstarted_def)
  show ?thesis
  proof (cases e)
    case InitArrivals
    then have zero: "customer_id st = 0" using un by simp
    have none: "length (filter wakes_arrivals (queue ?st1)) = 0"
      using wakes InitArrivals by simp
    have "\<not> unstarted ?st1"
      using no_wakes_no_starts[OF none] by (auto simp add: unstarted_def)
    moreover have "length (filter wakes_arrivals
        (queue (arrivals_wait mi (?st1\<lparr>customer_id := 0\<rparr>)))) \<le> 1"
      using wakes_arrivals_wait[of mi "?st1\<lparr>customer_id := 0\<rparr>"] none by simp
    ultimately show ?thesis
      using d InitArrivals sum zero by (auto simp add: accounted_alt)
  next
    case ArrivalTimeout
    have none: "length (filter wakes_arrivals (queue ?st1)) = 0"
      using wakes ArrivalTimeout by simp
    have "\<not> unstarted ?st1"
      using no_wakes_no_starts[OF none] by (auto simp add: unstarted_def)
    moreover have "length (filter wakes_arrivals (queue (arrivals_spawn mi ?st1))) \<le> 1"
      using wakes_arrivals_spawn[of mi ?st1] none by simp
    ultimately show ?thesis
      using d ArrivalTimeout sum by (auto simp add: accounted_alt)
  next
    case (InitCustomer n)
    then show ?thesis
      using d sum wakes un by (auto simp add: accounted_alt)
  next
    case (Granted r)
    then show ?thesis
      using d sum wakes un by (auto simp add: accounted_alt)
  next
    case (ServiceTimeout r)
    then show ?thesis
      using d sum wakes un by (auto simp add: accounted_alt)
  next
    case (Released r)
    then show ?thesis
      using d sum wakes un by (auto simp add: accounted_alt)
  next
    case ProcessEnd
    then show ?thesis
      using d sum wakes un by (auto simp add: accounted_alt)
  next
    case (ProcessFailed err)
    then show ?thesis
      using d sum wakes un by (auto simp add: accounted_alt)
  next
    case StopEvent
    then show ?thesis
      using d sum wakes un by (auto simp add: accounted_alt)
  qed
qed

lemma accounted_started: "accounted (started nt sim_time g)"
  by (simp add: accounted_def outstanding_def unstarted_def started_def new_sim_def URGENT_def)

lemma accounted_steps: "accounted st \<Longrightarrow> accounted (steps k mi ms v st)"
  by (rule steps_keep[where P = accounted]) (auto elim: accounted_step)

subsection \<open>A service time with every wait\<close>

lemma paired_customer_serve:
  "ms \<noteq> 0 \<Longrightarrow> length (service_times st) = length (waiting_times st) \<Longrightarrow>
   length (service_times (customer_serve ms v r st)) =
   length (waiting_times (customer_serve ms v r st))"
  by (simp add: customer_serve_def Let_def expovariate_def random_draw_def)

lemma paired_dispatch:
  "ms \<noteq> 0 \<Longrightarrow> length (service_times st) = length (waiting_times st) \<Longrightarrow>
   dispatch mi ms v e st = (sig, st') \<Longrightarrow>
   length (service_times st') = length (waiting_times st')"
  by (cases e) (auto simp add: paired_customer_serve arrivals_spawn_def customer_arrive_def
        customer_leave_def Let_def)

lemma paired_step:
  assumes "ms \<noteq> 0" and "length (service_times st) = length (waiting_times st)"
    and "step mi ms v st = (sig, st')"
  shows "length (service_times st') = length (waiting_times st')"
proof (cases "queue st = []")
  case True
  with assms step_empty[OF True assms(3)] show ?thesis by simp
next
  case False
  from assms(3) False obtain t p i e rest where q: "queue st = (t, p, i, e) # rest"
    and d: "dispatch mi ms v e (st\<lparr>now := t, queue := rest\<rparr>) = (sig, st')"
    by (rule step_pop)
  show ?thesis by (rule paired_dispatch[OF assms(1) _ d]) (use assms(2) in simp)
qed

lemma paired_steps:
  "ms \<noteq> 0 \<Longrightarrow> length (service_times st) = length (waiting_times st) \<Longrightarrow>
   length (service_times (steps k mi ms v st)) = length (waiting_times (steps k mi ms v st))"
  by (rule steps_keep[where P = "\<lambda>s. length (service_times s) = length (waiting_times s)"])
     (auto elim: paired_step)

subsection \<open>Scheduled grants\<close>

lemma grants_due_fields [simp]:
  "grants_due (st\<lparr>users := u\<rparr>) = grants_due st"
  "grants_due (st\<lparr>put_queue := pq\<rparr>) = grants_due st"
  "grants_due (st\<lparr>customer_id := n\<rparr>) = grants_due st"
  "grants_due (st\<lparr>waiting_times := w\<rparr>) = grants_due st"
  "grants_due (st\<lparr>service_times := s\<rparr>) = grants_due st"
  "grants_due (st\<lparr>generator := g\<rparr>) = grants_due st"
  "grants_due (st\<lparr>stdout := out\<rparr>) = grants_due st"
  "grants_due (say v m st) = grants_due st"
  by (simp_all add: grants_due_def)

lemma grants_due_schedule:
  "grants_due st \<Longrightarrow>
   (case e of Granted r \<Rightarrow> d \<le> 0 \<and> p \<le> NORMAL | other \<Rightarrow> True) \<Longrightarrow>
   grants_due (schedule e p d st)"
  by (cases e) (auto simp add: grants_due_def set_heappush less_Suc_eq)

lemma grants_due_fail: "grants_due st \<Longrightarrow> grants_due (fail err st)"
  by (simp add: fail_def grants_due_schedule)

lemma grants_due_trigger_put: "grants_due st \<Longrightarrow> grants_due (trigger_put st)"
  by (cases "put_queue st") (simp_all add: trigger_put_def grants_due_schedule)

lemma grants_due_request: "grants_due st \<Longrightarrow> grants_due (request r st)"
  by (simp add: request_def grants_due_trigger_put)

lemma grants_due_release: "grants_due st \<Longrightarrow> grants_due (release r st)"
  by (simp add: release_def grants_due_schedule)

lemma grants_due_arrivals_wait: "grants_due st \<Longrightarrow> grants_due (arrivals_wait mi st)"
  by (simp add: arrivals_wait_def grants_due_fail grants_due_schedule
        split: prod.splits sum.splits)

lemma grants_due_arrivals_spawn: "grants_due st \<Longrightarrow> grants_due (arrivals_spawn mi st)"
  by (simp add: arrivals_spawn_def Let_def grants_due_arrivals_wait grants_due_schedule)

lemma grants_due_customer_arrive: "grants_due st \<Longrightarrow> grants_due (customer_arrive v n st)"
  by (simp add: customer_arrive_def Let_def grants_due_request)

lemma grants_due_customer_serve: "grants_due st \<Longrightarrow> grants_due (customer_serve ms v r st)"
  by (simp add: customer_serve_def Let_def grants_due_fail grants_due_release
        grants_due_schedule split: prod.splits sum.splits)

lemma grants_due_customer_leave: "grants_due st \<Longrightarrow> grants_due (customer_leave v r st)"
  by (simp add: customer_leave_def grants_due_schedule grants_due_release)

lemma grants_due_dispatch:
  "grants_due st \<Longrightarrow> dispatch mi ms v e st = (sig, st') \<Longrightarrow> grants_due st'"
  by (cases e) (auto simp add: grants_due_arrivals_wait grants_due_arrivals_spawn
        grants_due_customer_arrive grants_due_customer_serve grants_due_customer_leave
        grants_due_trigger_put)

lemma grants_due_pop:
  assumes "grants_due st" and "clock_ok st" and "queue st = (t, p, i, e) # rest"
  shows "grants_due (st\<lparr>now := t, queue := rest\<rparr>)"
proof -
  have t: "now st \<le> t" using assms(2,3) by (simp add: clock_ok_def)
  have "\<And>x. x \<in> set rest \<Longrightarrow> grant_of x \<noteq> [] \<Longrightarrow>
      fst x \<le> t \<and> fst (snd x) \<le> NORMAL \<and> fst (snd (snd x)) < eid st"
  proof -
    fix x assume "x \<in> set rest" and "grant_of x \<noteq> []"
    then have "fst x \<le> now st \<and> fst (snd x) \<le> NORMAL \<and> fst (snd (snd x)) < eid st"
      using assms(1,3) by (simp add: grants_due_def)
    with t show "fst x \<le> t \<and> fst (snd x) \<le> NORMAL \<and> fst (snd (snd x)) < eid st"
      by simp
  qed
  then show ?thesis by (simp add: grants_due_def)
qed

subsection \<open>The waiting line\<close>

lemma grants_schedule_other:
  "(case e of Granted r \<Rightarrow> False | other \<Rightarrow> True) \<Longrightarrow>
   grants (queue (schedule e p d st)) = grants (queue st)"
  by (cases e) (simp_all add: grants_def concat_heappush_none)

lemma grants_schedule_granted:
  assumes "clock_ok st" and "grants_due st"
  shows "grants (queue (schedule (Granted r) NORMAL 0 st)) = grants (queue st) @ [r]"
proof -
  have "\<forall>y\<in>set (queue st). grant_of y \<noteq> [] \<longrightarrow>
      \<not> before (now st + 0, NORMAL, eid st, Granted r) y"
  proof (intro ballI impI)
    fix y assume y: "y \<in> set (queue st)" and g: "grant_of y \<noteq> []"
    obtain t' p' i' e' where yy: "y = (t', p', i', e')" by (cases y) auto
    from assms(2) y g yy have "t' \<le> now st \<and> p' \<le> NORMAL \<and> i' < eid st"
      by (auto simp add: grants_due_def)
    then show "\<not> before (now st + 0, NORMAL, eid st, Granted r) y"
      by (auto simp add: yy)
  qed
  moreover have "ordered (queue st)" using assms(1) by (simp add: clock_ok_def)
  ultimately have "concat (map grant_of (heappush (now st + 0, NORMAL, eid st, Granted r)
      (queue st))) = concat (map grant_of (queue st)) @
      grant_of (now st + 0, NORMAL, eid st, Granted r)"
    by (rule concat_heappush_last[rotated])
  then show ?thesis by (simp add: grants_def)
qed

lemma line_fields [simp]:
  "waiting_line (st\<lparr>users := u\<rparr>) = waiting_line st"
  "waiting_line (st\<lparr>now := t\<rparr>) = waiting_line st"
  "waiting_line (st\<lparr>customer_id := n\<rparr>) = waiting_line st"
  "waiting_line (st\<lparr>waiting_times := w\<rparr>) = waiting_line st"
  "waiting_line (st\<lparr>service_times := s\<rparr>) = waiting_line st"
  "waiting_line (st\<lparr>generator := g\<rparr>) = waiting_line st"
  "waiting_line (st\<lparr>stdout := out\<rparr>) = waiting_line st"
  "waiting_line (say v m st) = waiting_line st"
  by (simp_all add: waiting_line_def)

lemma line_schedule_other:
  "(case e of Granted r \<Rightarrow> False | other \<Rightarrow> True) \<Longrightarrow>
   waiting_line (schedule e p d st) = waiting_line st"
  using grants_schedule_other[of e p d st] by (simp add: waiting_line_def)

lemma line_fail [simp]: "waiting_line (fail err st) = waiting_line st"
  by (simp add: fail_def line_schedule_other)

lemma line_release [simp]: "waiting_line (release r st) = waiting_line st"
  by (simp add: release_def line_schedule_other)

lemma line_trigger_put:
  assumes "clock_ok st" and "grants_due st"
  shows "waiting_line (trigger_put st) = waiting_line st"
proof (cases "put_queue st")
  case Nil
  then show ?thesis by (simp add: trigger_put_def)
next
  case (Cons r rest)
  let ?st1 = "st\<lparr>users := users st @ [r], put_queue := rest\<rparr>"
  have "clock_ok ?st1" and "grants_due ?st1" using assms by simp_all
  then have "grants (queue (schedule (Granted r) NORMAL 0 ?st1)) = grants (queue ?st1) @ [r]"
    by (rule grants_schedule_granted)
  then have "waiting_line (schedule (Granted r) NORMAL 0 ?st1) = waiting_line st"
    using Cons by (simp add: waiting_line_def)
  with Cons show ?thesis by (simp add: trigger_put_def)
qed

lemma line_request:
  assumes "clock_ok st" and "grants_due st"
  shows "waiting_line (request r st) = waiting_line st @ [fst r]"
proof -
  let ?st1 = "st\<lparr>put_queue := put_queue st @ [r]\<rparr>"
  have "clock_ok ?st1" and "grants_due ?st1" using assms by simp_all
  then have "waiting_line (trigger_put ?st1) = waiting_line ?st1" by (rule line_trigger_put)
  then show ?thesis by (simp add: request_def waiting_line_def)
qed

lemma line_arrivals_wait [simp]: "waiting_line (arrivals_wait mi st) = waiting_line st"
  by (simp add: arrivals_wait_def line_schedule_other expovariate_def random_draw_def)

lemma line_arrivals_spawn [simp]: "waiting_line (arrivals_spawn mi st) = waiting_line st"
  by (simp add: arrivals_spawn_def Let_def line_schedule_other)

lemma line_customer_serve [simp]: "waiting_line (customer_serve ms v r st) = waiting_line st"
  by (simp add: customer_serve_def Let_def line_schedule_other expovariate_def random_draw_def)

lemma line_customer_leave [simp]: "waiting_line (customer_leave v r st) = waiting_line st"
  by (simp add: customer_leave_def line_schedule_other)

lemma line_customer_arrive:
  "clock_ok st \<Longrightarrow> grants_due st \<Longrightarrow>
   waiting_line (customer_arrive v n st) = waiting_line st @ [n]"
  by (simp add: customer_arrive_def Let_def line_request clock_say)

subsection \<open>The verbose trace\<close>

lemma arrived_append [simp]: "arrived (out @ [m]) = arrived out @ arrival_of m"
  by (simp add: arrived_def)

lemma starts_append [simp]: "service_starts (out @ [m]) = service_starts out @ start_of m"
  by (simp add: service_starts_def)

lemma stdout_simps [simp]:
  "stdout (arrivals_wait mi st) = stdout st"
  "stdout (arrivals_spawn mi st) = stdout st"
  "stdout (customer_arrive True n st) = stdout st @ [Arrives n (now st)]"
  "stdout (customer_serve ms True r st) =
     stdout st @ [StartsService (fst r) (now st) (now st - snd r)]"
  "stdout (customer_leave True r st) = stdout st @ [Leaves (fst r) (now st)]"
  by (simp_all add: arrivals_wait_def arrivals_spawn_def customer_arrive_def
        customer_serve_def customer_leave_def Let_def expovariate_def random_draw_def)

lemma now_simps [simp]:
  "now (arrivals_wait mi st) = now st"
  "now (arrivals_spawn mi st) = now st"
  "now (customer_arrive v n st) = now st"
  "now (customer_serve ms v r st) = now st"
  "now (customer_leave v r st) = now st"
  by (simp_all add: arrivals_wait_def arrivals_spawn_def customer_arrive_def
        customer_serve_def customer_leave_def Let_def expovariate_def random_draw_def)

lemma sorted_snoc: "sorted xs \<Longrightarrow> \<forall>x\<in>set xs. x \<le> (y::real) \<Longrightarrow> sorted (xs @ [y])"
  by (simp add: sorted_append)

lemma fifo_step:
  assumes "clock_ok st" and "grants_due st" and "fifo_ok st"
    and "step mi ms True st = (sig, st')"
  shows "fifo_ok st'"
proof (cases "queue st = []")
  case True
  with assms step_empty[OF True assms(4)] show ?thesis by simp
next
  case False
  from assms(4) False obtain t p i e rest where q: "queue st = (t, p, i, e) # rest"
    and d: "dispatch mi ms True e (st\<lparr>now := t, queue := rest\<rparr>) = (sig, st')"
    by (rule step_pop)
  let ?st1 = "st\<lparr>now := t, queue := rest\<rparr>"
  have c1: "clock_ok ?st1" using assms(1) q by (rule clock_pop)
  have g1: "grants_due ?st1" using assms(2,1) q by (rule grants_due_pop)
  have t: "now st \<le> t" using assms(1) q by (simp add: clock_ok_def)
  have out1: "stdout ?st1 = stdout st" and now1: "now ?st1 = t" by simp_all
  have line: "waiting_line st = map fst (grant_of (t, p, i, e)) @ waiting_line ?st1"
    by (simp add: waiting_line_def q)
  have order: "arrived (stdout st) =
      map fst (service_starts (stdout st)) @ map fst (grant_of (t, p, i, e)) @ waiting_line ?st1"
    using assms(3) line by (simp add: fifo_ok_def)
  have sorted: "sorted (map snd (service_starts (stdout st)))"
    using assms(3) by (simp add: fifo_ok_def)
  have past: "\<forall>m\<in>set (service_starts (stdout st)). snd m \<le> t"
  proof
    fix m assume "m \<in> set (service_starts (stdout st))"
    then have "snd m \<le> now st" using assms(3) by (simp add: fifo_ok_def)
    with t show "snd m \<le> t" by simp
  qed
  have past': "\<And>a b. (a, b) \<in> set (service_starts (stdout st)) \<Longrightarrow> b \<le> t"
    using past by auto
  show ?thesis
  proof (cases e)
    case (Granted r)
    have "sorted (map snd (service_starts (stdout st)) @ [t])"
      using sorted past by (intro sorted_snoc) auto
    then show ?thesis
      using d Granted order past' by (auto simp add: fifo_ok_def)
  next
    case (InitCustomer n)
    have "waiting_line (customer_arrive True n ?st1) = waiting_line ?st1 @ [n]"
      using c1 g1 by (rule line_customer_arrive)
    then show ?thesis
      using d InitCustomer order sorted past' by (auto simp add: fifo_ok_def)
  next
    case (Released r)
    have "waiting_line (trigger_put ?st1) = waiting_line ?st1"
      using c1 g1 by (rule line_trigger_put)
    then show ?thesis
      using d Released order sorted past' by (auto simp add: fifo_ok_def)
  next
    case InitArrivals
    then show ?thesis
      using d order sorted past' by (auto simp add: fifo_ok_def)
  next
    case ArrivalTimeout
    then show ?thesis
      using d order sorted past' by (auto simp add: fifo_ok_def)
  next
    case (ServiceTimeout r)
    then show ?thesis
      using d order sorted past' by (auto simp add: fifo_ok_def)
  next
    case ProcessEnd
    then show ?thesis
      using d order sorted past' by (auto simp add: fifo_ok_def)
  next
    case (ProcessFailed err)
    then show ?thesis
      using d order sorted past' by (auto simp add: fifo_ok_def)
  next
    case StopEvent
    then show ?thesis
      using d order sorted past' by (auto simp add: fifo_ok_def)
  qed
qed

lemma grants_due_step:
  assumes "clock_ok st" and "grants_due st" and "step mi ms v st = (sig, st')"
  shows "grants_due st'"
proof (cases "queue st = []")
  case True
  with assms step_empty[OF True assms(3)] show ?thesis by simp
next
  case False
  from assms(3) False obtain t p i e rest where q: "queue st = (t, p, i, e) # rest"
    and d: "dispatch mi ms v e (st\<lparr>now := t, queue := rest\<rparr>) = (sig, st')"
    by (rule step_pop)
  from grants_due_pop[OF assms(2,1) q] d show ?thesis by (rule grants_due_dispatch)
qed

lemma fifo_steps:
  assumes "clock_ok st" and "grants_due st" and "fifo_ok st"
  shows "fifo_ok (steps k mi ms True st)"
proof -
  have "clock_ok (steps k mi ms True st) \<and> grants_due (steps k mi ms True st) \<and>
      fifo_ok (steps k mi ms True st)"
    by (rule steps_keep[where P = "\<lambda>s. clock_ok s \<and> grants_due s \<and> fifo_ok s"])
       (use assms in \<open>auto elim: clock_step grants_due_step fifo_step\<close>)
  then show ?thesis by simp
qed

lemma fifo_started:
  "0 \<le> sim_time \<Longrightarrow> clock_ok (started nt sim_time g) \<and> grants_due (started nt sim_time g) \<and>
     fifo_ok (started nt sim_time g)"
  by (simp add: started_def new_sim_def clock_ok_def grants_due_def fifo_ok_def
        waiting_line_def arrived_def service_starts_def schedule_def ordered_def URGENT_def)

subsection \<open>The trace does not steer the run\<close>

lemma quiet_fields:
  "with_stdout out (st\<lparr>now := t\<rparr>) = (with_stdout out st)\<lparr>now := t\<rparr>"
  "with_stdout out (st\<lparr>queue := q\<rparr>) = (with_stdout out st)\<lparr>queue := q\<rparr>"
  "with_stdout out (st\<lparr>users := u\<rparr>) = (with_stdout out st)\<lparr>users := u\<rparr>"
  "with_stdout out (st\<lparr>put_queue := pq\<rparr>) = (with_stdout out st)\<lparr>put_queue := pq\<rparr>"
  "with_stdout out (st\<lparr>customer_id := n\<rparr>) = (with_stdout out st)\<lparr>customer_id := n\<rparr>"
  "with_stdout out (st\<lparr>waiting_times := w\<rparr>) = (with_stdout out st)\<lparr>waiting_times := w\<rparr>"
  "with_stdout out (st\<lparr>service_times := s\<rparr>) = (with_stdout out st)\<lparr>service_times := s\<rparr>"
  "with_stdout out (st\<lparr>generator := g\<rparr>) = (with_stdout out st)\<lparr>generator := g\<rparr>"
  by (simp_all add: with_stdout_def)

lemma quiet_reads [simp]:
  "now (with_stdout out st) = now st"
  "queue (with_stdout out st) = queue st"
  "eid (with_stdout out st) = eid st"
  "capacity (with_stdout out st) = capacity st"
  "users (with_stdout out st) = users st"
  "put_queue (with_stdout out st) = put_queue st"
  "customer_id (with_stdout out st) = customer_id st"
  "waiting_times (with_stdout out st) = waiting_times st"
  "service_times (with_stdout out st) = service_times st"
  "generator (with_stdout out st) = generator st"
  "stdout (with_stdout out st) = out"
  by (simp_all add: with_stdout_def)

lemma quiet_schedule:
  "schedule e p d (with_stdout out st) = with_stdout out (schedule e p d st)"
  by (simp add: schedule_def with_stdout_def)

lemma quiet_fail: "fail err (with_stdout out st) = with_stdout out (fail err st)"
  by (simp add: fail_def quiet_schedule)

lemma quiet_say: "say False m (with_stdout out st) = with_stdout out (say v m st)"
  by (simp add: say_def with_stdout_def)

lemma quiet_trigger_put:
  "trigger_put (with_stdout out st) = with_stdout out (trigger_put st)"
  by (cases "put_queue st")
     (simp_all add: trigger_put_def quiet_fields[symmetric] quiet_schedule)

lemma quiet_request: "request r (with_stdout out st) = with_stdout out (request r st)"
  by (simp add: request_def quiet_fields[symmetric] quiet_trigger_put)

lemma quiet_release: "release r (with_stdout out st) = with_stdout out (release r st)"
  by (simp add: release_def quiet_fields[symmetric] quiet_schedule)

lemma quiet_arrivals_wait:
  "arrivals_wait mi (with_stdout out st) = with_stdout out (arrivals_wait mi st)"
  by (simp add: arrivals_wait_def quiet_fields[symmetric] quiet_fail quiet_schedule
        split: prod.splits sum.splits)

lemma quiet_arrivals_spawn:
  "arrivals_spawn mi (with_stdout out st) = with_stdout out (arrivals_spawn mi st)"
  by (simp add: arrivals_spawn_def Let_def quiet_fields[symmetric] quiet_schedule
        quiet_arrivals_wait)

lemma quiet_customer_arrive:
  "customer_arrive False n (with_stdout out st) = with_stdout out (customer_arrive v n st)"
  by (simp add: customer_arrive_def Let_def quiet_say[of _ _ _ v] quiet_request)

lemma quiet_customer_leave:
  "customer_leave False r (with_stdout out st) = with_stdout out (customer_leave v r st)"
  by (simp add: customer_leave_def quiet_say[of _ _ _ v] quiet_release quiet_schedule)

lemma quiet_customer_serve:
  "customer_serve ms False r (with_stdout out st) = with_stdout out (customer_serve ms v r st)"
  by (simp add: customer_serve_def Let_def quiet_fields[symmetric] quiet_say[of _ _ _ v]
        quiet_fail quiet_release quiet_schedule split: prod.splits sum.splits)

lemma quiet_dispatch:
  "dispatch mi ms v e st = (sig, st') \<Longrightarrow>
   dispatch mi ms False e (with_stdout out st) = (sig, with_stdout out st')"
  by (cases e)
     (auto simp add: quiet_fields[symmetric] quiet_arrivals_wait quiet_arrivals_spawn
        quiet_customer_arrive[of _ _ _ v] quiet_customer_serve[of _ _ _ _ v]
        quiet_customer_leave[of _ _ _ v] quiet_trigger_put)

lemma quiet_step:
  assumes "step mi ms v st = (sig, st')"
  shows "step mi ms False (with_stdout out st) = (sig, with_stdout out st')"
proof (cases "queue st = []")
  case True
  with assms step_empty[OF True assms] show ?thesis by (simp add: step_def)
next
  case False
  from assms False obtain t p i e rest where q: "queue st = (t, p, i, e) # rest"
    and d: "dispatch mi ms v e (st\<lparr>now := t, queue := rest\<rparr>) = (sig, st')"
    by (rule step_pop)
  from quiet_dispatch[OF d, of out] q show ?thesis
    by (simp add: step_def quiet_fields)
qed

lemma quiet_steps:
  "steps k mi ms False (with_stdout out st) = with_stdout out (steps k mi ms v st)"
proof (induction k arbitrary: st)
  case 0
  then show ?case by simp
next
  case (Suc k)
  obtain sig st1 where s: "step mi ms v st = (sig, st1)" by (cases "step mi ms v st") auto
  from quiet_step[OF s, of out] s Suc.IH[of st1] show ?case by (cases sig) simp_all
qed

lemma quiet_started: "with_stdout [] (started nt sim_time g) = started nt sim_time g"
  by (simp add: with_stdout_def started_def new_sim_def schedule_def)

subsection \<open>Runs and their results\<close>

lemmas sim_defs = step_def Let_def arrivals_wait_def arrivals_spawn_def customer_arrive_def
  customer_serve_def customer_leave_def request_def release_def trigger_put_def fail_def
  expovariate_def random_draw_def URGENT_def NORMAL_def schedule_def say_def started_def
  new_sim_def

lemma draws_unit: "exponential_draws unit_draws"
  by (simp add: exponential_draws_def unit_draws_def)

lemma timing_steps: "timing_ok st \<Longrightarrow> 0 \<le> ms \<Longrightarrow> timing_ok (steps k mi ms v st)"
  by (rule steps_keep[where P = timing_ok]) (auto elim: timing_step)

lemma timing_run_loop:
  "timing_ok st \<Longrightarrow> 0 \<le> ms \<Longrightarrow> run_loop k mi ms v st = Some (Inr st') \<Longrightarrow> timing_ok st'"
  by (rule run_loop_keep[where P = timing_ok]) (auto elim: timing_step)

lemma make_stats_Inr:
  "make_stats run wts sts a b =
   Inr \<lparr>run_number = run, customers_served = int (length wts),
        avg_waiting_time = (if wts \<noteq> [] then sum_list wts / real (length wts) else 0),
        max_waiting_time = (if wts \<noteq> [] then fold max (tl wts) (hd wts) else 0),
        avg_service_time = (if sts \<noteq> [] then sum_list sts / real (length sts) else 0),
        waiting_times_ref = a, service_times_ref = b\<rparr>"
  unfolding make_stats_def
  by (simp only: guarded_mean guarded_max then_do_Inr)

lemma run_single_simulation_Inr:
  assumes "run_single_simulation fuel h g nt mi ms sim_time run v = Some (Inr (stats, h', g'))"
  obtains st where "simulate fuel nt mi ms sim_time v g = Some (Inr st)"
    and "make_stats run (waiting_times st) (service_times st) (length h) (Suc (length h))
           = Inr stats"
    and "h' = h @ [waiting_times st, service_times st]" and "g' = generator st"
  using assms
  by (auto simp add: run_single_simulation_def make_stats_Inr then_do_def
        split: option.splits sum.splits)

lemma calculate_Inr:
  "all_stats \<noteq> [] \<Longrightarrow>
   \<exists>ws ss. fst (calculate_overall_statistics h all_stats) =
     then_do (overall all_stats ws ss) (\<lambda>d. Inr (Some d))"
  by (auto simp add: calculate_overall_statistics_def new_list_def Let_def)

lemma overall_fields_qualifying:
  assumes "filter (\<lambda>stats. customers_served stats > 0) all_stats \<noteq> []"
  shows "\<exists>q. overall (filter (\<lambda>stats. customers_served stats > 0) all_stats) ws ss = Inr q \<and>
     (if map avg_waiting_time (filter (\<lambda>stats. customers_served stats > 0) all_stats) \<noteq> []
        then mean (map avg_waiting_time (filter (\<lambda>stats. customers_served stats > 0) all_stats))
        else Inr 0) = Inr (mean_avg_waiting_time q) \<and>
     (if 1 < length (map avg_waiting_time (filter (\<lambda>stats. customers_served stats > 0) all_stats))
        then stdev (map avg_waiting_time (filter (\<lambda>stats. customers_served stats > 0) all_stats))
        else Inr 0) = Inr (std_avg_waiting_time q) \<and>
     (if map max_waiting_time (filter (\<lambda>stats. customers_served stats > 0) all_stats) \<noteq> []
        then mean (map max_waiting_time (filter (\<lambda>stats. customers_served stats > 0) all_stats))
        else Inr 0) = Inr (mean_max_waiting_time q) \<and>
     (if map avg_service_time (filter (\<lambda>stats. customers_served stats > 0) all_stats) \<noteq> []
        then mean (map avg_service_time (filter (\<lambda>stats. customers_served stats > 0) all_stats))
        else Inr 0) = Inr (mean_avg_service_time q)"
proof -
  have idem: "filter (\<lambda>stats. customers_served stats > 0)
      (filter (\<lambda>stats. customers_served stats > 0) all_stats) =
      filter (\<lambda>stats. customers_served stats > 0) all_stats"
    by simp
  from overall_fields[OF assms, of ws ss] show ?thesis
    unfolding idem by blast
qed

lemma run_loop_steps:
  "run_loop k mi ms v st = Some (Inr st') \<Longrightarrow> steps k mi ms v st = st'"
proof (induction k arbitrary: st)
  case 0
  then show ?case by simp
next
  case (Suc k)
  obtain sig st1 where s: "step mi ms v st = (sig, st1)" by (cases "step mi ms v st") auto
  with Suc show ?case by (cases sig) simp_all
qed

lemma simulate_steps:
  "simulate fuel nt mi ms sim_time v g = Some (Inr st) \<Longrightarrow>
   steps fuel mi ms v (started nt sim_time g) = st"
  by (auto simp add: simulate_def split: if_splits dest: run_loop_steps)

lemma lists_dispatch:
  assumes "ms \<noteq> 0" and "dispatch mi ms v e st = (sig, st')"
  shows "case e of
           Granted r \<Rightarrow>
             waiting_times st' = waiting_times st @ [now st - snd r] \<and>
             service_times st' = service_times st @ [generator st 0 / (1 / ms)]
         | other \<Rightarrow> waiting_times st' = waiting_times st \<and> service_times st' = service_times st"
  using assms
  by (cases e)
     (auto simp add: customer_serve_def arrivals_spawn_def customer_arrive_def
        customer_leave_def Let_def expovariate_def random_draw_def)

subsection \<open>Fuel and store do not change what a run returns\<close>

lemma run_loop_fuel:
  "run_loop k mi ms v st = Some r \<Longrightarrow> run_loop k' mi ms v st = Some r' \<Longrightarrow> r = r'"
proof (induction k arbitrary: k' st)
  case 0
  then show ?case by simp
next
  case (Suc k)
  obtain j where k': "k' = Suc j" using Suc.prems(2) by (cases k') auto
  obtain sig st1 where s: "step mi ms v st = (sig, st1)" by (cases "step mi ms v st") auto
  show ?case
  proof (cases sig)
    case Next
    with Suc.prems s k' have "run_loop k mi ms v st1 = Some r" "run_loop j mi ms v st1 = Some r'"
      by simp_all
    then show ?thesis by (rule Suc.IH)
  next
    case Stop
    with Suc.prems s k' show ?thesis by simp
  next
    case (Raise err)
    with Suc.prems s k' show ?thesis by simp
  qed
qed

lemma simulate_fuel:
  "simulate k nt mi ms sim_time v g = Some r \<Longrightarrow>
   simulate k' nt mi ms sim_time v g = Some r' \<Longrightarrow> r = r'"
  by (auto simp add: simulate_def split: if_splits dest: run_loop_fuel)

lemma run_single_simulation_same:
  assumes "run_single_simulation k h g nt mi ms sim_time run v = Some (Inr (stats, s, g1))"
    and "run_single_simulation k' h' g nt mi ms sim_time run v = Some (Inr (stats', s', g2))"
  shows "\<exists>ws ss. s = h @ [ws, ss] \<and> s' = h' @ [ws, ss] \<and>
           waiting_times_ref stats = length h \<and> service_times_ref stats = Suc (length h) \<and>
           waiting_times_ref stats' = length h' \<and> service_times_ref stats' = Suc (length h') \<and>
           customers_served stats' = customers_served stats \<and> g2 = g1"
proof -
  from assms(1) obtain st where
    s1: "simulate k nt mi ms sim_time v g = Some (Inr st)"
    and m1: "make_stats run (waiting_times st) (service_times st) (length h) (Suc (length h))
            = Inr stats"
    and h1: "s = h @ [waiting_times st, service_times st]" and g1: "g1 = generator st"
    by (rule run_single_simulation_Inr)
  from assms(2) obtain st' where
    s2: "simulate k' nt mi ms sim_time v g = Some (Inr st')"
    and m2: "make_stats run (waiting_times st') (service_times st') (length h')
            (Suc (length h')) = Inr stats'"
    and h2: "s' = h' @ [waiting_times st', service_times st']" and g2: "g2 = generator st'"
    by (rule run_single_simulation_Inr)
  have "Inr st = (Inr st' :: error + sim)" using s1 s2 by (rule simulate_fuel)
  then have same: "st' = st" by simp
  from m1 m2 h1 h2 g1 g2 show ?thesis
    by (auto simp add: same make_stats_Inr)
qed

lemma run_each_same:
  assumes "run_each k nt mi ms sim_time runs acc h g = Some (Inr (rs, s, g1))"
    and "run_each k' nt mi ms sim_time runs acc' h' g = Some (Inr (rs', s', g2))"
    and "\<forall>r\<in>set acc. waiting_times_ref r < length h \<and> service_times_ref r < length h"
    and "\<forall>r\<in>set acc'. waiting_times_ref r < length h' \<and> service_times_ref r < length h'"
    and "map (\<lambda>r. (h ! waiting_times_ref r, h ! service_times_ref r)) acc =
         map (\<lambda>r. (h' ! waiting_times_ref r, h' ! service_times_ref r)) acc'"
    and "map customers_served acc = map customers_served acc'"
  shows "map (\<lambda>r. (s ! waiting_times_ref r, s ! service_times_ref r)) rs =
         map (\<lambda>r. (s' ! waiting_times_ref r, s' ! service_times_ref r)) rs' \<and>
         map customers_served rs = map customers_served rs' \<and> g2 = g1"
  using assms
proof (induction runs arbitrary: acc acc' h h' g)
  case Nil
  then show ?case by simp
next
  case (Cons run runs)
  from Cons.prems(1) obtain stats h1 ga where
    a: "run_single_simulation k h g nt mi ms sim_time run (run = 1) = Some (Inr (stats, h1, ga))"
    and a': "run_each k nt mi ms sim_time runs (acc @ [stats]) h1 ga = Some (Inr (rs, s, g1))"
    by (auto split: option.splits sum.splits)
  from Cons.prems(2) obtain stats' h2 gb where
    b: "run_single_simulation k' h' g nt mi ms sim_time run (run = 1)
          = Some (Inr (stats', h2, gb))"
    and b': "run_each k' nt mi ms sim_time runs (acc' @ [stats']) h2 gb
          = Some (Inr (rs', s', g2))"
    by (auto split: option.splits sum.splits)
  from run_single_simulation_same[OF a b] obtain ws ss where
    h1: "h1 = h @ [ws, ss]" and h2: "h2 = h' @ [ws, ss]"
    and r1: "waiting_times_ref stats = length h" "service_times_ref stats = Suc (length h)"
    and r2: "waiting_times_ref stats' = length h'" "service_times_ref stats' = Suc (length h')"
    and c: "customers_served stats' = customers_served stats" and g: "gb = ga"
    by blast
  have v1: "\<forall>r\<in>set (acc @ [stats]).
      waiting_times_ref r < length h1 \<and> service_times_ref r < length h1"
    using Cons.prems(3) h1 r1 by auto
  have v2: "\<forall>r\<in>set (acc' @ [stats']).
      waiting_times_ref r < length h2 \<and> service_times_ref r < length h2"
    using Cons.prems(4) h2 r2 by auto
  have o1: "map (\<lambda>r. (h1 ! waiting_times_ref r, h1 ! service_times_ref r)) acc =
      map (\<lambda>r. (h ! waiting_times_ref r, h ! service_times_ref r)) acc"
    using Cons.prems(3) h1 by (simp add: nth_append)
  have o2: "map (\<lambda>r. (h2 ! waiting_times_ref r, h2 ! service_times_ref r)) acc' =
      map (\<lambda>r. (h' ! waiting_times_ref r, h' ! service_times_ref r)) acc'"
    using Cons.prems(4) h2 by (simp add: nth_append)
  have obs: "map (\<lambda>r. (h1 ! waiting_times_ref r, h1 ! service_times_ref r)) (acc @ [stats]) =
      map (\<lambda>r. (h2 ! waiting_times_ref r, h2 ! service_times_ref r)) (acc' @ [stats'])"
    using o1 o2 Cons.prems(5) h1 h2 r1 r2 by (simp add: nth_append)
  have served: "map customers_served (acc @ [stats]) = map customers_served (acc' @ [stats'])"
    using Cons.prems(6) c by simp
  from b' g have b'': "run_each k' nt mi ms sim_time runs (acc' @ [stats']) h2 ga
          = Some (Inr (rs', s', g2))"
    by simp
  show ?case by (rule Cons.IH[OF a' b'' v1 v2 obs served])
qed

section \<open>The claims\<close>

text \<open>
  C1, as stated, fails: the program validates nothing itself. With \<open>num_runs = 0\<close> no run
  is made and the empty list is returned without an error; with \<open>mean_service_time = 0\<close>
  and a first customer due after the cutoff the run returns its result without an error.
\<close>

theorem invalid_configuration_accepted:
  "run_multiple_simulations 0 [] unit_draws 2 1 1 10 0 = Some (Inr ([], [], unit_draws)) \<and>
   run_single_simulation 2 [] unit_draws 1 1 0 (1 / 2) 1 False =
     Some (Inr (\<lparr>run_number = 1, customers_served = 0, avg_waiting_time = 0,
                 max_waiting_time = 0, avg_service_time = 0,
                 waiting_times_ref = 0, service_times_ref = 1\<rparr>,
                [[], []], unit_draws))"
  by (simp add: run_multiple_simulations_def run_single_simulation_def simulate_def sim_defs
        unit_draws_def make_stats_def then_do_def eval_nat_numeral
        del: schedule_simps say_simps)

text \<open>
  C1, amended: a configuration with \<open>num_tellers \<le> 0\<close> or \<open>sim_time \<le> 0\<close> makes
  \<open>run_single_simulation\<close> raise \<open>ValueError\<close> before any event is dispatched (whatever the
  fuel, even none). With both positive, \<open>mean_interarrival = 0\<close> raises
  \<open>ZeroDivisionError\<close>, and a negative \<open>mean_interarrival\<close> with a positive first draw raises
  \<open>ValueError\<close>, at the second dispatch, before any customer is created. With
  \<open>num_runs \<le> 0\<close> nothing is raised: \<open>run_multiple_simulations\<close> makes no run and returns
  the empty list.
\<close>

theorem configuration_errors:
  "(num_tellers \<le> 0 \<or> sim_time \<le> 0 \<longrightarrow>
      run_single_simulation fuel h g num_tellers mean_interarrival mean_service_time sim_time
        run verbose = Some (Inl ValueError)) \<and>
   (0 < num_tellers \<and> 0 < sim_time \<and> mean_interarrival = 0 \<longrightarrow>
      run_single_simulation (Suc (Suc fuel)) h g num_tellers mean_interarrival
        mean_service_time sim_time run verbose = Some (Inl ZeroDivisionError)) \<and>
   (0 < num_tellers \<and> 0 < sim_time \<and> mean_interarrival < 0 \<and> 0 < g 0 \<longrightarrow>
      run_single_simulation (Suc (Suc fuel)) h g num_tellers mean_interarrival
        mean_service_time sim_time run verbose = Some (Inl ValueError)) \<and>
   (num_runs \<le> 0 \<longrightarrow>
      run_multiple_simulations fuel h g num_tellers mean_interarrival mean_service_time
        sim_time num_runs = Some (Inr ([], h, g)))"
proof (intro conjI impI)
  assume "num_tellers \<le> 0 \<or> sim_time \<le> 0"
  then show "run_single_simulation fuel h g num_tellers mean_interarrival mean_service_time
      sim_time run verbose = Some (Inl ValueError)"
    by (auto simp add: run_single_simulation_def simulate_def)
next
  assume "0 < num_tellers \<and> 0 < sim_time \<and> mean_interarrival = 0"
  then show "run_single_simulation (Suc (Suc fuel)) h g num_tellers mean_interarrival
      mean_service_time sim_time run verbose = Some (Inl ZeroDivisionError)"
    by (simp add: run_single_simulation_def simulate_def started_def new_sim_def schedule_def
          step_def arrivals_wait_def fail_def URGENT_def NORMAL_def
          del: schedule_simps)
next
  assume a: "0 < num_tellers \<and> 0 < sim_time \<and> mean_interarrival < 0 \<and> 0 < g 0"
  then have "g 0 * mean_interarrival < 0"
    by (simp add: mult_pos_neg)
  with a show "run_single_simulation (Suc (Suc fuel)) h g num_tellers mean_interarrival
      mean_service_time sim_time run verbose = Some (Inl ValueError)"
    by (simp add: run_single_simulation_def simulate_def started_def new_sim_def schedule_def
          step_def arrivals_wait_def fail_def expovariate_def random_draw_def
          URGENT_def NORMAL_def
          del: schedule_simps)
next
  assume "num_runs \<le> 0"
  then show "run_multiple_simulations fuel h g num_tellers mean_interarrival mean_service_time
        sim_time num_runs = Some (Inr ([], h, g))"
    by (simp add: run_multiple_simulations_def)
qed

theorem configuration_errors_witness:
  "run_single_simulation 0 [] unit_draws 0 1 1 10 1 False = Some (Inl ValueError) \<and>
   run_single_simulation 0 [] unit_draws 1 1 1 0 1 False = Some (Inl ValueError) \<and>
   run_single_simulation 2 [] unit_draws 1 0 1 10 1 False = Some (Inl ZeroDivisionError) \<and>
   run_single_simulation 2 [] unit_draws 1 (- 1) 1 10 1 False = Some (Inl ValueError) \<and>
   run_multiple_simulations 3 [] unit_draws 1 1 1 10 0 = Some (Inr ([], [], unit_draws))"
proof -
  have "run_single_simulation 0 [] unit_draws 0 1 1 10 1 False = Some (Inl ValueError)"
    using configuration_errors[where num_tellers = 0 and sim_time = 10 and fuel = 0
        and h = "[]" and g = unit_draws and mean_interarrival = 1 and mean_service_time = 1
        and run = 1 and verbose = False]
    by simp
  moreover have "run_single_simulation 0 [] unit_draws 1 1 1 0 1 False = Some (Inl ValueError)"
    using configuration_errors[where num_tellers = 1 and sim_time = 0 and fuel = 0
        and h = "[]" and g = unit_draws and mean_interarrival = 1 and mean_service_time = 1
        and run = 1 and verbose = False]
    by simp
  moreover have "run_single_simulation 2 [] unit_draws 1 0 1 10 1 False
      = Some (Inl ZeroDivisionError)"
    using configuration_errors[where num_tellers = 1 and sim_time = 10 and fuel = 0
        and h = "[]" and g = unit_draws and mean_interarrival = 0 and mean_service_time = 1
        and run = 1 and verbose = False]
    by (simp add: eval_nat_numeral)
  moreover have "run_single_simulation 2 [] unit_draws 1 (- 1) 1 10 1 False
      = Some (Inl ValueError)"
    using configuration_errors[where num_tellers = 1 and sim_time = 10 and fuel = 0
        and h = "[]" and g = unit_draws and mean_interarrival = "- 1" and mean_service_time = 1
        and run = 1 and verbose = False]
    by (simp add: eval_nat_numeral unit_draws_def)
  moreover have "run_multiple_simulations 3 [] unit_draws 1 1 1 10 0
      = Some (Inr ([], [], unit_draws))"
    using configuration_errors[where num_runs = 0 and fuel = 3 and h = "[]" and g = unit_draws
        and num_tellers = 1 and mean_interarrival = 1 and mean_service_time = 1
        and sim_time = 10]
    by simp
  ultimately show ?thesis by simp
qed

text \<open>
  C2: a run that ends without any recorded wait returns a result with
  \<open>customers_served = 0\<close> and the three averages zero. In the aggregation of a non-empty
  list such runs are counted in \<open>total_runs\<close> and in \<open>avg_customers_per_run\<close>, and the four
  across-run fields are those of the list with the runs of no customer removed (zero when
  no run is left).
\<close>

theorem zero_customer_runs:
  "(simulate fuel num_tellers mean_interarrival mean_service_time sim_time verbose g
      = Some (Inr st) \<and> waiting_times st = [] \<longrightarrow>
    run_single_simulation fuel h g num_tellers mean_interarrival mean_service_time sim_time
      run verbose =
      Some (Inr (\<lparr>run_number = run, customers_served = 0, avg_waiting_time = 0,
                  max_waiting_time = 0, avg_service_time = 0,
                  waiting_times_ref = length h, service_times_ref = Suc (length h)\<rparr>,
                 h @ [[], []], generator st))) \<and>
   (all_stats \<noteq> [] \<longrightarrow>
    (\<exists>d. fst (calculate_overall_statistics h all_stats) = Inr (Some d) \<and>
         total_runs d = int (length all_stats) \<and>
         avg_customers_per_run d =
           real_of_int (sum_list (map customers_served all_stats)) / real (length all_stats) \<and>
         (case fst (calculate_overall_statistics h'
                      (filter (\<lambda>stats. customers_served stats > 0) all_stats)) of
            Inl err \<Rightarrow> False
          | Inr None \<Rightarrow>
              mean_avg_waiting_time d = 0 \<and> std_avg_waiting_time d = 0 \<and>
              mean_max_waiting_time d = 0 \<and> mean_avg_service_time d = 0
          | Inr (Some q) \<Rightarrow>
              mean_avg_waiting_time d = mean_avg_waiting_time q \<and>
              std_avg_waiting_time d = std_avg_waiting_time q \<and>
              mean_max_waiting_time d = mean_max_waiting_time q \<and>
              mean_avg_service_time d = mean_avg_service_time q)))"
proof (intro conjI impI)
  assume a: "simulate fuel num_tellers mean_interarrival mean_service_time sim_time verbose g
      = Some (Inr st) \<and> waiting_times st = []"
  then have "length (service_times st) \<le> length (waiting_times st)"
    by (auto dest: lengths_simulate)
  with a have "service_times st = []" by simp
  with a show "run_single_simulation fuel h g num_tellers mean_interarrival mean_service_time
      sim_time run verbose =
      Some (Inr (\<lparr>run_number = run, customers_served = 0, avg_waiting_time = 0,
                  max_waiting_time = 0, avg_service_time = 0,
                  waiting_times_ref = length h, service_times_ref = Suc (length h)\<rparr>,
                 h @ [[], []], generator st))"
    by (simp add: run_single_simulation_def make_stats_Inr then_do_def)
next
  assume ne: "all_stats \<noteq> []"
  let ?q = "filter (\<lambda>stats. customers_served stats > 0) all_stats"
  obtain ws ss where c: "fst (calculate_overall_statistics h all_stats) =
      then_do (overall all_stats ws ss) (\<lambda>d. Inr (Some d))"
    using calculate_Inr[OF ne] by blast
  obtain d where d: "overall all_stats ws ss = Inr d"
    and d1: "total_runs d = int (length all_stats)"
    and d2: "avg_customers_per_run d =
       real_of_int (sum_list (map customers_served all_stats)) / real (length all_stats)"
    and d3: "(if map avg_waiting_time ?q \<noteq> [] then mean (map avg_waiting_time ?q) else Inr 0)
        = Inr (mean_avg_waiting_time d)"
    and d4: "(if 1 < length (map avg_waiting_time ?q) then stdev (map avg_waiting_time ?q)
        else Inr 0) = Inr (std_avg_waiting_time d)"
    and d5: "(if map max_waiting_time ?q \<noteq> [] then mean (map max_waiting_time ?q) else Inr 0)
        = Inr (mean_max_waiting_time d)"
    and d6: "(if map avg_service_time ?q \<noteq> [] then mean (map avg_service_time ?q) else Inr 0)
        = Inr (mean_avg_service_time d)"
    using overall_fields[OF ne, of ws ss] by blast
  have result: "fst (calculate_overall_statistics h all_stats) = Inr (Some d)"
    using c d by (simp add: then_do_def)
  have rest: "case fst (calculate_overall_statistics h' ?q) of
            Inl err \<Rightarrow> False
          | Inr None \<Rightarrow>
              mean_avg_waiting_time d = 0 \<and> std_avg_waiting_time d = 0 \<and>
              mean_max_waiting_time d = 0 \<and> mean_avg_service_time d = 0
          | Inr (Some q) \<Rightarrow>
              mean_avg_waiting_time d = mean_avg_waiting_time q \<and>
              std_avg_waiting_time d = std_avg_waiting_time q \<and>
              mean_max_waiting_time d = mean_max_waiting_time q \<and>
              mean_avg_service_time d = mean_avg_service_time q"
  proof (cases "?q = []")
    case True
    with d3 d4 d5 d6 show ?thesis by (simp add: calculate_overall_statistics_def)
  next
    case False
    obtain ws' ss' where c': "fst (calculate_overall_statistics h' ?q) =
      then_do (overall ?q ws' ss') (\<lambda>d. Inr (Some d))"
      using calculate_Inr[OF False] by blast
    obtain q where q: "overall ?q ws' ss' = Inr q"
      and q3: "(if map avg_waiting_time ?q \<noteq> [] then mean (map avg_waiting_time ?q)
          else Inr 0) = Inr (mean_avg_waiting_time q)"
      and q4: "(if 1 < length (map avg_waiting_time ?q) then stdev (map avg_waiting_time ?q)
          else Inr 0) = Inr (std_avg_waiting_time q)"
      and q5: "(if map max_waiting_time ?q \<noteq> [] then mean (map max_waiting_time ?q)
          else Inr 0) = Inr (mean_max_waiting_time q)"
      and q6: "(if map avg_service_time ?q \<noteq> [] then mean (map avg_service_time ?q)
          else Inr 0) = Inr (mean_avg_service_time q)"
      using overall_fields_qualifying[OF False, of ws' ss'] by blast
    have "fst (calculate_overall_statistics h' ?q) = Inr (Some q)"
      using c' q by (simp add: then_do_def)
    moreover have "mean_avg_waiting_time d = mean_avg_waiting_time q"
      using d3 q3 by simp
    moreover have "std_avg_waiting_time d = std_avg_waiting_time q"
      using d4 q4 by simp
    moreover have "mean_max_waiting_time d = mean_max_waiting_time q"
      using d5 q5 by simp
    moreover have "mean_avg_service_time d = mean_avg_service_time q"
      using d6 q6 by simp
    ultimately show ?thesis by simp
  qed
  from result d1 d2 rest show "\<exists>d. fst (calculate_overall_statistics h all_stats) = Inr (Some d) \<and>
         total_runs d = int (length all_stats) \<and>
         avg_customers_per_run d =
           real_of_int (sum_list (map customers_served all_stats)) / real (length all_stats) \<and>
         (case fst (calculate_overall_statistics h' ?q) of
            Inl err \<Rightarrow> False
          | Inr None \<Rightarrow>
              mean_avg_waiting_time d = 0 \<and> std_avg_waiting_time d = 0 \<and>
              mean_max_waiting_time d = 0 \<and> mean_avg_service_time d = 0
          | Inr (Some q) \<Rightarrow>
              mean_avg_waiting_time d = mean_avg_waiting_time q \<and>
              std_avg_waiting_time d = std_avg_waiting_time q \<and>
              mean_max_waiting_time d = mean_max_waiting_time q \<and>
              mean_avg_service_time d = mean_avg_service_time q)"
    by blast
qed

theorem zero_customer_runs_witness:
  "simulate 5 1 1 1 (1 / 2) False unit_draws = Some (Inr idle_state) \<and>
   waiting_times idle_state = [] \<and>
   run_single_simulation 5 [] unit_draws 1 1 1 (1 / 2) 7 False =
     Some (Inr (\<lparr>run_number = 7, customers_served = 0, avg_waiting_time = 0,
                 max_waiting_time = 0, avg_service_time = 0,
                 waiting_times_ref = 0, service_times_ref = 1\<rparr>,
                [[], []], unit_draws)) \<and>
   [busy_run, idle_run] \<noteq> [] \<and>
   filter (\<lambda>stats. customers_served stats > 0) [busy_run, idle_run] = [busy_run] \<and>
   (\<exists>d. fst (calculate_overall_statistics sample_store [busy_run, idle_run]) = Inr (Some d) \<and>
        total_runs d = 2 \<and> avg_customers_per_run d = 1 \<and>
        mean_avg_waiting_time d = 2 \<and> std_avg_waiting_time d = 0 \<and>
        mean_max_waiting_time d = 3 \<and> mean_avg_service_time d = 2)"
proof -
  have s: "simulate 5 1 1 1 (1 / 2) False unit_draws = Some (Inr idle_state)"
    by (simp add: simulate_def sim_defs unit_draws_def idle_state_def eval_nat_numeral
          del: schedule_simps say_simps)
  have w: "waiting_times idle_state = []"
    by (simp add: idle_state_def)
  have g: "generator idle_state = unit_draws"
    by (simp add: idle_state_def)
  have f: "filter (\<lambda>stats. customers_served stats > 0) [busy_run, idle_run] = [busy_run]"
    by (simp add: busy_run_def idle_run_def)
  have refs: "\<forall>s\<in>set [busy_run].
      waiting_times_ref s < length sample_store \<and> service_times_ref s < length sample_store"
    by (simp add: busy_run_def sample_store_def)
  obtain q where q: "overall [busy_run] [1, 3] [2, 2] = Inr q"
    and q3: "mean_avg_waiting_time q = 2" and q4: "std_avg_waiting_time q = 0"
    and q5: "mean_max_waiting_time q = 3" and q6: "mean_avg_service_time q = 2"
    using overall_fields[of "[busy_run]" "[1, 3]" "[2, 2]"]
    by (auto simp add: busy_run_def mean_def)
  have ws: "concat (map (\<lambda>s. sample_store ! waiting_times_ref s) [busy_run]) = [1, 3]"
    by (simp add: busy_run_def sample_store_def)
  have ss: "concat (map (\<lambda>s. sample_store ! service_times_ref s) [busy_run]) = [2, 2]"
    by (simp add: busy_run_def sample_store_def)
  have one: "[busy_run] \<noteq> []" by simp
  have c: "fst (calculate_overall_statistics sample_store [busy_run]) = Inr (Some q)"
    by (simp only: calculate_frame[OF refs one] ws ss q then_do_Inr fst_conv)
  have run: "run_single_simulation 5 [] unit_draws 1 1 1 (1 / 2) 7 False =
     Some (Inr (\<lparr>run_number = 7, customers_served = 0, avg_waiting_time = 0,
                 max_waiting_time = 0, avg_service_time = 0,
                 waiting_times_ref = 0, service_times_ref = 1\<rparr>,
                [[], []], unit_draws))"
    using zero_customer_runs[where fuel = 5 and num_tellers = 1 and mean_interarrival = 1
        and mean_service_time = 1 and sim_time = "1 / 2" and verbose = False
        and g = unit_draws and st = idle_state and h = "[]" and run = 7] s w g
    by simp
  have agg: "\<exists>d. fst (calculate_overall_statistics sample_store [busy_run, idle_run])
          = Inr (Some d) \<and>
        total_runs d = 2 \<and> avg_customers_per_run d = 1 \<and>
        mean_avg_waiting_time d = 2 \<and> std_avg_waiting_time d = 0 \<and>
        mean_max_waiting_time d = 3 \<and> mean_avg_service_time d = 2"
  proof -
    have "customers_served busy_run = 2" and "customers_served idle_run = 0"
      by (simp_all add: busy_run_def idle_run_def)
    then show ?thesis
      using zero_customer_runs[where h = sample_store and h' = sample_store
          and all_stats = "[busy_run, idle_run]"]
      by (simp add: c q3 q4 q5 q6)
  qed
  from s w run f agg show ?thesis by simp
qed

text \<open>
  C3, as stated, fails on the list without any run: there are fewer than two runs with
  customers, and the result is \<open>None\<close>, which has no standard deviation and no interval.
\<close>

theorem underflow_on_no_runs: "fst (calculate_overall_statistics [] []) = Inr None"
  by (simp add: calculate_overall_statistics_def)

text \<open>
  C3, amended: for every list of run results that is not empty and has fewer than two runs
  with \<open>customers_served > 0\<close>, \<open>calculate_overall_statistics\<close> raises nothing and returns a
  record whose \<open>std_avg_waiting_time\<close>, \<open>waiting_time_95ci_low\<close> and
  \<open>waiting_time_95ci_high\<close> are zero.
\<close>

theorem underflow_gives_zero:
  assumes "all_stats \<noteq> []"
    and "length (filter (\<lambda>stats. customers_served stats > 0) all_stats) < 2"
  shows "\<exists>d. fst (calculate_overall_statistics h all_stats) = Inr (Some d) \<and>
             std_avg_waiting_time d = 0 \<and> waiting_time_95ci_low d = 0 \<and>
             waiting_time_95ci_high d = 0"
proof -
  have small: "\<not> 1 < length (map avg_waiting_time
      (filter (\<lambda>stats. customers_served stats > 0) all_stats))"
    using assms(2) by simp
  obtain c where c: "mean (map real_of_int (map customers_served all_stats)) = Inr c"
    using assms(1) by (simp add: mean_def)
  show ?thesis
    using assms(1) small c
    unfolding calculate_overall_statistics_def overall_def Let_def
    by (simp only: guarded_mean guarded_max then_do_Inr if_False split: prod.splits)
       (simp add: then_do_def)
qed

theorem underflow_gives_zero_witness:
  "[busy_run, idle_run] \<noteq> [] \<and>
   length (filter (\<lambda>stats. customers_served stats > 0) [busy_run, idle_run]) < 2 \<and>
   (\<exists>d. fst (calculate_overall_statistics sample_store [busy_run, idle_run]) = Inr (Some d) \<and>
        std_avg_waiting_time d = 0 \<and> waiting_time_95ci_low d = 0 \<and>
        waiting_time_95ci_high d = 0)"
  using underflow_gives_zero[of "[busy_run, idle_run]" sample_store]
  by (simp add: busy_run_def idle_run_def)

text \<open>
  C4: on the verbose trace of a run, after any number of dispatched events, the customers
  in the order in which they arrived and asked for a teller are those that have started
  service, in the order of their service starts, followed by those that still wait (grant
  scheduled, then wait queue): nobody is served before a customer that asked earlier, and
  the service starts follow the clock. A run that is not verbose takes the same steps,
  without the trace.
\<close>

theorem first_come_first_served:
  "0 < sim_time \<Longrightarrow>
   arrived (stdout (steps k mean_interarrival mean_service_time True
                      (started num_tellers sim_time g))) =
     map fst (service_starts (stdout (steps k mean_interarrival mean_service_time True
                                        (started num_tellers sim_time g)))) @
     waiting_line (steps k mean_interarrival mean_service_time True
                     (started num_tellers sim_time g)) \<and>
   sorted (map snd (service_starts (stdout (steps k mean_interarrival mean_service_time True
                                              (started num_tellers sim_time g))))) \<and>
   steps k mean_interarrival mean_service_time False (started num_tellers sim_time g) =
     with_stdout [] (steps k mean_interarrival mean_service_time True
                       (started num_tellers sim_time g))"
proof -
  assume "0 < sim_time"
  then have "clock_ok (started num_tellers sim_time g) \<and>
      grants_due (started num_tellers sim_time g) \<and> fifo_ok (started num_tellers sim_time g)"
    by (simp add: fifo_started)
  then have "fifo_ok (steps k mean_interarrival mean_service_time True
      (started num_tellers sim_time g))"
    by (simp add: fifo_steps)
  moreover have "steps k mean_interarrival mean_service_time False
      (with_stdout [] (started num_tellers sim_time g)) =
     with_stdout [] (steps k mean_interarrival mean_service_time True
                       (started num_tellers sim_time g))"
    by (rule quiet_steps)
  ultimately show ?thesis by (simp add: fifo_ok_def quiet_started)
qed

theorem first_come_first_served_witness:
  "(0::real) < 7 / 2 \<and>
   stdout (steps 20 1 2 True (started 1 (7 / 2) unit_draws)) =
     [Arrives 1 1, StartsService 1 1 0, Arrives 2 2, Leaves 1 3, Arrives 3 3,
      StartsService 2 3 1] \<and>
   arrived (stdout (steps 20 1 2 True (started 1 (7 / 2) unit_draws))) = [1, 2, 3] \<and>
   service_starts (stdout (steps 20 1 2 True (started 1 (7 / 2) unit_draws))) =
     [(1, 1), (2, 3)] \<and>
   waiting_line (steps 20 1 2 True (started 1 (7 / 2) unit_draws)) = [3] \<and>
   arrived (stdout (steps 20 1 2 True (started 1 (7 / 2) unit_draws))) =
     map fst (service_starts (stdout (steps 20 1 2 True (started 1 (7 / 2) unit_draws)))) @
     waiting_line (steps 20 1 2 True (started 1 (7 / 2) unit_draws)) \<and>
   sorted (map snd (service_starts (stdout (steps 20 1 2 True
                                              (started 1 (7 / 2) unit_draws))))) \<and>
   waiting_times (steps 20 1 2 False (started 1 (7 / 2) unit_draws)) =
     waiting_times (steps 20 1 2 True (started 1 (7 / 2) unit_draws))"
proof -
  let ?s = "steps 20 1 2 True (started 1 (7 / 2) unit_draws)"
  have out: "stdout ?s =
     [Arrives 1 1, StartsService 1 1 0, Arrives 2 2, Leaves 1 3, Arrives 3 3,
      StartsService 2 3 1]"
    by (simp add: sim_defs unit_draws_def eval_nat_numeral del: schedule_simps say_simps)
  have a: "arrived (stdout ?s) = [1, 2, 3]"
    by (simp add: out arrived_def)
  have b: "service_starts (stdout ?s) = [(1, 1), (2, 3)]"
    by (simp add: out service_starts_def)
  have t: "(0::real) < 7 / 2" by simp
  note order = first_come_first_served[OF t, of 20 1 2 1 unit_draws]
  have line: "waiting_line ?s = [3]"
    using order by (simp add: a b)
  have same: "waiting_times (steps 20 1 2 False (started 1 (7 / 2) unit_draws)) =
     waiting_times ?s"
    using order by simp
  from t out a b line order same show ?thesis by simp
qed

text \<open>
  C5: at every instant of every run, that is after any number of dispatched events, the
  customers that hold a teller are at most \<open>num_tellers\<close>.
\<close>

theorem tellers_never_exceeded:
  "0 < num_tellers \<Longrightarrow>
   int (length (users (steps k mean_interarrival mean_service_time verbose
                        (started num_tellers sim_time g)))) \<le> num_tellers"
proof -
  assume "0 < num_tellers"
  then have "pool_ok (started num_tellers sim_time g)" by (simp add: pool_started)
  then have "pool_ok (steps k mean_interarrival mean_service_time verbose
      (started num_tellers sim_time g))"
    by (rule pool_steps)
  moreover have "capacity (started num_tellers sim_time g) = num_tellers"
    by (simp add: started_def new_sim_def)
  ultimately show ?thesis by (simp add: pool_ok_def capacity_steps)
qed

theorem tellers_never_exceeded_witness:
  "(0::int) < 1 \<and> users (steps 12 1 1 True (started 1 3 unit_draws)) = [(2, 2)] \<and>
   int (length (users (steps 12 1 1 True (started 1 3 unit_draws)))) \<le> 1"
  using tellers_never_exceeded[of 1 12 1 1 True 3 unit_draws]
  by (simp add: sim_defs unit_draws_def eval_nat_numeral del: schedule_simps say_simps)

text \<open>
  C6: two executions of the whole set of runs from the same state of the random generator
  return, run by run, the same waiting-time and service-time sequences and the same
  counts, and leave the generator in the same state; this holds whatever the store the
  lists are put in and whatever the fuel of the two executions.
\<close>

theorem same_stream_same_sequences:
  "run_multiple_simulations fuel h g num_tellers mean_interarrival mean_service_time sim_time
     num_runs = Some (Inr (all_stats, s, g1)) \<and>
   run_multiple_simulations fuel' h' g num_tellers mean_interarrival mean_service_time
     sim_time num_runs = Some (Inr (all_stats', s', g2)) \<longrightarrow>
   map (\<lambda>stats. s ! waiting_times_ref stats) all_stats =
     map (\<lambda>stats. s' ! waiting_times_ref stats) all_stats' \<and>
   map (\<lambda>stats. s ! service_times_ref stats) all_stats =
     map (\<lambda>stats. s' ! service_times_ref stats) all_stats' \<and>
   map customers_served all_stats = map customers_served all_stats' \<and> g2 = g1"
proof
  assume a: "run_multiple_simulations fuel h g num_tellers mean_interarrival mean_service_time
     sim_time num_runs = Some (Inr (all_stats, s, g1)) \<and>
   run_multiple_simulations fuel' h' g num_tellers mean_interarrival mean_service_time
     sim_time num_runs = Some (Inr (all_stats', s', g2))"
  then have one: "run_each fuel num_tellers mean_interarrival mean_service_time sim_time
      [1..num_runs] [] h g = Some (Inr (all_stats, s, g1))"
    and two: "run_each fuel' num_tellers mean_interarrival mean_service_time sim_time
      [1..num_runs] [] h' g = Some (Inr (all_stats', s', g2))"
    by (simp_all add: run_multiple_simulations_def)
  have pairs: "map (\<lambda>r. (s ! waiting_times_ref r, s ! service_times_ref r)) all_stats =
         map (\<lambda>r. (s' ! waiting_times_ref r, s' ! service_times_ref r)) all_stats'"
    and rest: "map customers_served all_stats = map customers_served all_stats'" "g2 = g1"
    using run_each_same[OF one two] by simp_all
  have "map fst (map (\<lambda>r. (s ! waiting_times_ref r, s ! service_times_ref r)) all_stats) =
      map fst (map (\<lambda>r. (s' ! waiting_times_ref r, s' ! service_times_ref r)) all_stats')"
    using pairs by simp
  then have w: "map (\<lambda>stats. s ! waiting_times_ref stats) all_stats =
     map (\<lambda>stats. s' ! waiting_times_ref stats) all_stats'"
    by (simp add: o_def)
  have "map snd (map (\<lambda>r. (s ! waiting_times_ref r, s ! service_times_ref r)) all_stats) =
      map snd (map (\<lambda>r. (s' ! waiting_times_ref r, s' ! service_times_ref r)) all_stats')"
    using pairs by simp
  then have v: "map (\<lambda>stats. s ! service_times_ref stats) all_stats =
     map (\<lambda>stats. s' ! service_times_ref stats) all_stats'"
    by (simp add: o_def)
  from w v rest show "map (\<lambda>stats. s ! waiting_times_ref stats) all_stats =
     map (\<lambda>stats. s' ! waiting_times_ref stats) all_stats' \<and>
   map (\<lambda>stats. s ! service_times_ref stats) all_stats =
     map (\<lambda>stats. s' ! service_times_ref stats) all_stats' \<and>
   map customers_served all_stats = map customers_served all_stats' \<and> g2 = g1"
    by simp
qed

theorem same_stream_same_sequences_witness:
  "run_multiple_simulations 20 [] unit_draws 1 1 2 (7 / 2) 2 =
     Some (Inr ([\<lparr>run_number = 1, customers_served = 2, avg_waiting_time = 1 / 2,
                  max_waiting_time = 1, avg_service_time = 2,
                  waiting_times_ref = 0, service_times_ref = 1\<rparr>,
                 \<lparr>run_number = 2, customers_served = 2, avg_waiting_time = 1 / 2,
                  max_waiting_time = 1, avg_service_time = 2,
                  waiting_times_ref = 2, service_times_ref = 3\<rparr>],
                [[0, 1], [2, 2], [0, 1], [2, 2]], unit_draws)) \<and>
   run_multiple_simulations 30 sample_store unit_draws 1 1 2 (7 / 2) 2 =
     Some (Inr ([\<lparr>run_number = 1, customers_served = 2, avg_waiting_time = 1 / 2,
                  max_waiting_time = 1, avg_service_time = 2,
                  waiting_times_ref = 4, service_times_ref = 5\<rparr>,
                 \<lparr>run_number = 2, customers_served = 2, avg_waiting_time = 1 / 2,
                  max_waiting_time = 1, avg_service_time = 2,
                  waiting_times_ref = 6, service_times_ref = 7\<rparr>],
                [[1, 3], [2, 2], [], [], [0, 1], [2, 2], [0, 1], [2, 2]], unit_draws)) \<and>
   map (\<lambda>stats. ([[0, 1], [2, 2], [0, 1], [2, 2]] :: store) ! waiting_times_ref stats)
     [\<lparr>run_number = 1, customers_served = 2, avg_waiting_time = 1 / 2,
       max_waiting_time = 1, avg_service_time = 2,
       waiting_times_ref = 0, service_times_ref = 1\<rparr>,
      \<lparr>run_number = 2, customers_served = 2, avg_waiting_time = 1 / 2,
       max_waiting_time = 1, avg_service_time = 2,
       waiting_times_ref = 2, service_times_ref = 3\<rparr>] =
   map (\<lambda>stats. ([[1, 3], [2, 2], [], [], [0, 1], [2, 2], [0, 1], [2, 2]] :: store) !
                   waiting_times_ref stats)
     [\<lparr>run_number = 1, customers_served = 2, avg_waiting_time = 1 / 2,
       max_waiting_time = 1, avg_service_time = 2,
       waiting_times_ref = 4, service_times_ref = 5\<rparr>,
      \<lparr>run_number = 2, customers_served = 2, avg_waiting_time = 1 / 2,
       max_waiting_time = 1, avg_service_time = 2,
       waiting_times_ref = 6, service_times_ref = (7::nat)\<rparr>]"
proof -
  let ?r1 = "[\<lparr>run_number = 1, customers_served = 2, avg_waiting_time = 1 / 2,
                  max_waiting_time = 1, avg_service_time = 2,
                  waiting_times_ref = 0, service_times_ref = 1\<rparr>,
                 \<lparr>run_number = 2, customers_served = 2, avg_waiting_time = 1 / 2,
                  max_waiting_time = 1, avg_service_time = 2,
                  waiting_times_ref = 2, service_times_ref = 3\<rparr>]"
  let ?r2 = "[\<lparr>run_number = 1, customers_served = 2, avg_waiting_time = 1 / 2,
                  max_waiting_time = 1, avg_service_time = 2,
                  waiting_times_ref = 4, service_times_ref = 5\<rparr>,
                 \<lparr>run_number = 2, customers_served = 2, avg_waiting_time = 1 / 2,
                  max_waiting_time = 1, avg_service_time = 2,
                  waiting_times_ref = 6, service_times_ref = 7\<rparr>]"
  have a: "run_multiple_simulations 20 [] unit_draws 1 1 2 (7 / 2) 2 =
     Some (Inr (?r1, [[0, 1], [2, 2], [0, 1], [2, 2]], unit_draws))"
    by (simp add: run_multiple_simulations_def run_single_simulation_def simulate_def
          sim_defs unit_draws_def make_stats_def then_do_def mean_def py_max_def
          eval_nat_numeral upto.simps
          del: schedule_simps say_simps)
  have b: "run_multiple_simulations 30 sample_store unit_draws 1 1 2 (7 / 2) 2 =
     Some (Inr (?r2, [[1, 3], [2, 2], [], [], [0, 1], [2, 2], [0, 1], [2, 2]], unit_draws))"
    by (simp add: run_multiple_simulations_def run_single_simulation_def simulate_def
          sim_defs unit_draws_def sample_store_def make_stats_def then_do_def mean_def
          py_max_def eval_nat_numeral upto.simps
          del: schedule_simps say_simps)
  note inst = same_stream_same_sequences[of 20 "[]" unit_draws 1 1 2 "7 / 2" 2 ?r1
      "[[0, 1], [2, 2], [0, 1], [2, 2]]" unit_draws 30 sample_store ?r2
      "[[1, 3], [2, 2], [], [], [0, 1], [2, 2], [0, 1], [2, 2]]" unit_draws]
  have c: "map (\<lambda>stats. ([[0, 1], [2, 2], [0, 1], [2, 2]] :: store) ! waiting_times_ref stats) ?r1 =
     map (\<lambda>stats. ([[1, 3], [2, 2], [], [], [0, 1], [2, 2], [0, 1], [2, 2]] :: store) !
                   waiting_times_ref stats) ?r2"
    by (rule inst[THEN mp, OF conjI[OF a b], THEN conjunct1])
  show ?thesis by (intro conjI a b c)
qed

text \<open>
  C7: for every valid configuration and a generator whose draws are not negative, every
  waiting time and every service time recorded after any number of dispatched events is
  at least zero; and when the run returns, \<open>customers_served\<close> and every value of the two
  lists of the result are at least zero.
\<close>

theorem observations_are_nonnegative:
  assumes "0 < num_tellers" and "0 < mean_interarrival" and "0 < mean_service_time"
    and "0 < sim_time" and "exponential_draws g"
  shows "(\<forall>w\<in>set (waiting_times (steps k mean_interarrival mean_service_time verbose
                     (started num_tellers sim_time g))). 0 \<le> w) \<and>
         (\<forall>s\<in>set (service_times (steps k mean_interarrival mean_service_time verbose
                     (started num_tellers sim_time g))). 0 \<le> s) \<and>
         (run_single_simulation fuel h g num_tellers mean_interarrival mean_service_time
            sim_time run verbose = Some (Inr (stats, h', g')) \<longrightarrow>
          0 \<le> customers_served stats \<and>
          (\<forall>w\<in>set (h' ! waiting_times_ref stats). 0 \<le> w) \<and>
          (\<forall>s\<in>set (h' ! service_times_ref stats). 0 \<le> s))"
proof -
  have start: "timing_ok (started num_tellers sim_time g)"
    using assms(4,5) by (simp add: timing_started)
  have ms: "0 \<le> mean_service_time" using assms(3) by simp
  have "timing_ok (steps k mean_interarrival mean_service_time verbose
      (started num_tellers sim_time g))"
    using start ms by (rule timing_steps)
  then have during: "observations_ok (steps k mean_interarrival mean_service_time verbose
      (started num_tellers sim_time g))"
    by (simp add: timing_ok_def)
  have after: "0 \<le> customers_served stats \<and>
          (\<forall>w\<in>set (h' ! waiting_times_ref stats). 0 \<le> w) \<and>
          (\<forall>s\<in>set (h' ! service_times_ref stats). 0 \<le> s)"
    if r: "run_single_simulation fuel h g num_tellers mean_interarrival mean_service_time
            sim_time run verbose = Some (Inr (stats, h', g'))"
  proof -
    from r obtain st where
      s: "simulate fuel num_tellers mean_interarrival mean_service_time sim_time verbose g
            = Some (Inr st)"
      and m: "make_stats run (waiting_times st) (service_times st) (length h) (Suc (length h))
            = Inr stats"
      and h': "h' = h @ [waiting_times st, service_times st]"
      by (rule run_single_simulation_Inr)
    have "run_loop fuel mean_interarrival mean_service_time verbose
        (started num_tellers sim_time g) = Some (Inr st)"
      using s assms(1,4) by (simp add: simulate_def)
    with start ms have "timing_ok st" by (rule timing_run_loop)
    then have "observations_ok st" by (simp add: timing_ok_def)
    moreover have "stats = \<lparr>run_number = run,
        customers_served = int (length (waiting_times st)),
        avg_waiting_time = (if waiting_times st \<noteq> []
          then sum_list (waiting_times st) / real (length (waiting_times st)) else 0),
        max_waiting_time = (if waiting_times st \<noteq> []
          then fold max (tl (waiting_times st)) (hd (waiting_times st)) else 0),
        avg_service_time = (if service_times st \<noteq> []
          then sum_list (service_times st) / real (length (service_times st)) else 0),
        waiting_times_ref = length h, service_times_ref = Suc (length h)\<rparr>"
      using m by (simp add: make_stats_Inr)
    ultimately show ?thesis
      using h' by (simp add: observations_ok_def nth_append)
  qed
  from during after show ?thesis by (simp add: observations_ok_def)
qed

theorem observations_are_nonnegative_witness:
  "(0::int) < 1 \<and> (0::real) < 1 \<and> (0::real) < 2 \<and> (0::real) < 7 / 2 \<and>
   exponential_draws unit_draws \<and>
   run_single_simulation 20 [] unit_draws 1 1 2 (7 / 2) 1 False =
     Some (Inr (\<lparr>run_number = 1, customers_served = 2, avg_waiting_time = 1 / 2,
                 max_waiting_time = 1, avg_service_time = 2,
                 waiting_times_ref = 0, service_times_ref = 1\<rparr>,
                [[0, 1], [2, 2]], unit_draws)) \<and>
   list_all (\<lambda>w. (0::real) \<le> w) ([[0, 1], [2, 2]] ! 0) \<and>
   list_all (\<lambda>s. (0::real) \<le> s) ([[0, 1], [2, 2]] ! 1)"
proof -
  have r: "run_single_simulation 20 [] unit_draws 1 1 2 (7 / 2) 1 False =
     Some (Inr (\<lparr>run_number = 1, customers_served = 2, avg_waiting_time = 1 / 2,
                 max_waiting_time = 1, avg_service_time = 2,
                 waiting_times_ref = 0, service_times_ref = 1\<rparr>,
                [[0, 1], [2, 2]], unit_draws))"
    by (simp add: run_single_simulation_def simulate_def sim_defs unit_draws_def
          make_stats_def then_do_def mean_def py_max_def eval_nat_numeral
          del: schedule_simps say_simps)
  from observations_are_nonnegative[of 1 1 2 "7 / 2" unit_draws 0 False 20 "[]" 1
      "\<lparr>run_number = 1, customers_served = 2, avg_waiting_time = 1 / 2,
        max_waiting_time = 1, avg_service_time = 2,
        waiting_times_ref = 0, service_times_ref = 1\<rparr>" "[[0, 1], [2, 2]]" unit_draws]
    r draws_unit
  show ?thesis by simp
qed

text \<open>
  C8: whatever the state, the step that dispatches a grant appends the wait (the clock
  at the grant minus the arrival time) and the service time, and no other step touches the
  two lists; so after any number of steps there is a service time with every wait, and the
  customers created are those with an observation and those outstanding (queued, with a
  grant not yet dispatched, or not yet run). What a returning run reports are the lists of
  the state the loop stopped in: a customer in service at the cutoff is in both lists and
  in \<open>customers_served\<close>, a customer in the wait queue is in neither.
\<close>

theorem observations_made_at_service_start:
  assumes "mean_service_time \<noteq> 0"
  shows "(queue st = (t, p, i, e) # rest \<and>
          step mean_interarrival mean_service_time verbose st = (sig, st') \<longrightarrow>
          (case e of
             Granted r \<Rightarrow>
               waiting_times st' = waiting_times st @ [t - snd r] \<and>
               service_times st' = service_times st @ [generator st 0 / (1 / mean_service_time)]
           | other \<Rightarrow>
               waiting_times st' = waiting_times st \<and> service_times st' = service_times st)) \<and>
         length (service_times (steps k mean_interarrival mean_service_time verbose
                   (started num_tellers sim_time g))) =
         length (waiting_times (steps k mean_interarrival mean_service_time verbose
                   (started num_tellers sim_time g))) \<and>
         customer_id (steps k mean_interarrival mean_service_time verbose
                   (started num_tellers sim_time g)) =
         length (waiting_times (steps k mean_interarrival mean_service_time verbose
                   (started num_tellers sim_time g))) +
         outstanding (steps k mean_interarrival mean_service_time verbose
                   (started num_tellers sim_time g)) \<and>
         (run_single_simulation fuel h g num_tellers mean_interarrival mean_service_time
            sim_time run verbose = Some (Inr (stats, h', g')) \<longrightarrow>
          h' ! waiting_times_ref stats =
            waiting_times (steps fuel mean_interarrival mean_service_time verbose
                   (started num_tellers sim_time g)) \<and>
          h' ! service_times_ref stats =
            service_times (steps fuel mean_interarrival mean_service_time verbose
                   (started num_tellers sim_time g)) \<and>
          customers_served stats =
            int (length (waiting_times (steps fuel mean_interarrival mean_service_time verbose
                   (started num_tellers sim_time g)))))"
proof (intro conjI impI)
  assume a: "queue st = (t, p, i, e) # rest \<and>
          step mean_interarrival mean_service_time verbose st = (sig, st')"
  then have q: "queue st = (t, p, i, e) # rest"
    and s: "step mean_interarrival mean_service_time verbose st = (sig, st')"
    by simp_all
  have d: "dispatch mean_interarrival mean_service_time verbose e
      (st\<lparr>now := t, queue := rest\<rparr>) = (sig, st')"
    using s by (simp add: step_def q)
  from lists_dispatch[OF assms d]
  show "case e of
             Granted r \<Rightarrow>
               waiting_times st' = waiting_times st @ [t - snd r] \<and>
               service_times st' = service_times st @ [generator st 0 / (1 / mean_service_time)]
           | other \<Rightarrow>
               waiting_times st' = waiting_times st \<and> service_times st' = service_times st"
    by (cases e) simp_all
next
  have "length (service_times (started num_tellers sim_time g)) =
      length (waiting_times (started num_tellers sim_time g))"
    by (simp add: started_def new_sim_def)
  with assms show "length (service_times (steps k mean_interarrival mean_service_time verbose
                   (started num_tellers sim_time g))) =
         length (waiting_times (steps k mean_interarrival mean_service_time verbose
                   (started num_tellers sim_time g)))"
    by (rule paired_steps)
next
  have "accounted (steps k mean_interarrival mean_service_time verbose
      (started num_tellers sim_time g))"
    using accounted_started by (rule accounted_steps)
  then show "customer_id (steps k mean_interarrival mean_service_time verbose
                   (started num_tellers sim_time g)) =
         length (waiting_times (steps k mean_interarrival mean_service_time verbose
                   (started num_tellers sim_time g))) +
         outstanding (steps k mean_interarrival mean_service_time verbose
                   (started num_tellers sim_time g))"
    by (simp add: accounted_def)
next
  assume r: "run_single_simulation fuel h g num_tellers mean_interarrival mean_service_time
            sim_time run verbose = Some (Inr (stats, h', g'))"
  from r obtain st where
    s: "simulate fuel num_tellers mean_interarrival mean_service_time sim_time verbose g
            = Some (Inr st)"
    and m: "make_stats run (waiting_times st) (service_times st) (length h) (Suc (length h))
            = Inr stats"
    and h': "h' = h @ [waiting_times st, service_times st]"
    by (rule run_single_simulation_Inr)
  have st: "steps fuel mean_interarrival mean_service_time verbose
      (started num_tellers sim_time g) = st"
    using s by (rule simulate_steps)
  have refs: "waiting_times_ref stats = length h" "service_times_ref stats = Suc (length h)"
    "customers_served stats = int (length (waiting_times st))"
    using m by (auto simp add: make_stats_Inr)
  show "h' ! waiting_times_ref stats =
            waiting_times (steps fuel mean_interarrival mean_service_time verbose
                   (started num_tellers sim_time g))"
    by (simp add: st refs h' nth_append)
  show "h' ! service_times_ref stats =
            service_times (steps fuel mean_interarrival mean_service_time verbose
                   (started num_tellers sim_time g))"
    by (simp add: st refs h' nth_append)
  show "customers_served stats =
            int (length (waiting_times (steps fuel mean_interarrival mean_service_time verbose
                   (started num_tellers sim_time g))))"
    by (simp add: st refs)
qed

theorem observations_made_at_service_start_witness:
  "(2::real) \<noteq> 0 \<and>
   queue (steps 3 1 2 False (started 1 (7 / 2) unit_draws)) =
     [(1, 1, 5, Granted (1, 1)), (2, 1, 4, ArrivalTimeout), (7 / 2, 0, 1, StopEvent)] \<and>
   step 1 2 False (steps 3 1 2 False (started 1 (7 / 2) unit_draws)) =
     (Next, steps 4 1 2 False (started 1 (7 / 2) unit_draws)) \<and>
   waiting_times (steps 4 1 2 False (started 1 (7 / 2) unit_draws)) =
     waiting_times (steps 3 1 2 False (started 1 (7 / 2) unit_draws)) @ [1 - 1] \<and>
   service_times (steps 4 1 2 False (started 1 (7 / 2) unit_draws)) =
     service_times (steps 3 1 2 False (started 1 (7 / 2) unit_draws)) @
     [generator (steps 3 1 2 False (started 1 (7 / 2) unit_draws)) 0 / (1 / 2)] \<and>
   waiting_times (steps 20 1 2 False (started 1 (7 / 2) unit_draws)) = [0, 1] \<and>
   service_times (steps 20 1 2 False (started 1 (7 / 2) unit_draws)) = [2, 2] \<and>
   queue (steps 20 1 2 False (started 1 (7 / 2) unit_draws)) =
     [(4, 1, 12, ArrivalTimeout), (5, 1, 14, ServiceTimeout (2, 2))] \<and>
   put_queue (steps 20 1 2 False (started 1 (7 / 2) unit_draws)) = [(3, 3)] \<and>
   customer_id (steps 20 1 2 False (started 1 (7 / 2) unit_draws)) = 2 + 1 \<and>
   run_single_simulation 20 [] unit_draws 1 1 2 (7 / 2) 1 False =
     Some (Inr (\<lparr>run_number = 1, customers_served = 2, avg_waiting_time = 1 / 2,
                 max_waiting_time = 1, avg_service_time = 2,
                 waiting_times_ref = 0, service_times_ref = 1\<rparr>,
                [[0, 1], [2, 2]], unit_draws))"
proof -
  let ?s3 = "steps 3 1 2 False (started 1 (7 / 2) unit_draws)"
  let ?s4 = "steps 4 1 2 False (started 1 (7 / 2) unit_draws)"
  let ?s20 = "steps 20 1 2 False (started 1 (7 / 2) unit_draws)"
  have q3: "queue ?s3 =
      [(1, 1, 5, Granted (1, 1)), (2, 1, 4, ArrivalTimeout), (7 / 2, 0, 1, StopEvent)]"
    by (simp add: sim_defs unit_draws_def eval_nat_numeral del: schedule_simps say_simps)
  have s34: "step 1 2 False ?s3 = (Next, ?s4)"
    by (simp add: sim_defs unit_draws_def eval_nat_numeral del: schedule_simps say_simps)
  have w20: "waiting_times ?s20 = [0, 1]" and v20: "service_times ?s20 = [2, 2]"
    and q20: "queue ?s20 = [(4, 1, 12, ArrivalTimeout), (5, 1, 14, ServiceTimeout (2, 2))]"
    and p20: "put_queue ?s20 = [(3, 3)]"
    by (simp_all add: sim_defs unit_draws_def eval_nat_numeral del: schedule_simps say_simps)
  have r: "run_single_simulation 20 [] unit_draws 1 1 2 (7 / 2) 1 False =
     Some (Inr (\<lparr>run_number = 1, customers_served = 2, avg_waiting_time = 1 / 2,
                 max_waiting_time = 1, avg_service_time = 2,
                 waiting_times_ref = 0, service_times_ref = 1\<rparr>,
                [[0, 1], [2, 2]], unit_draws))"
    by (simp add: run_single_simulation_def simulate_def sim_defs unit_draws_def
          make_stats_def then_do_def mean_def py_max_def eval_nat_numeral
          del: schedule_simps say_simps)
  have two: "(2::real) \<noteq> 0" by simp
  note inst = observations_made_at_service_start[OF two,
      where st = ?s3 and t = 1 and p = 1 and i = 5 and e = "Granted (1, 1)"
        and rest = "[(2, 1, 4, ArrivalTimeout), (7 / 2, 0, 1, StopEvent)]"
        and mean_interarrival = 1 and verbose = False and sig = Next and st' = ?s4
        and k = 20 and num_tellers = 1 and sim_time = "7 / 2" and g = unit_draws]
  have grant: "waiting_times ?s4 = waiting_times ?s3 @ [1 - 1] \<and>
      service_times ?s4 = service_times ?s3 @ [generator ?s3 0 / (1 / 2)]"
    using inst q3 s34 by simp
  have count: "customer_id ?s20 = 2 + 1"
    using inst by (simp add: w20 outstanding_def q20 p20)
  from two q3 s34 grant w20 v20 q20 p20 count r show ?thesis by simp
qed

text \<open>
  C9: when the run results refer to lists of the store, \<open>calculate_overall_statistics\<close>
  leaves every list the store held before the call as it was (it appends to two lists of
  its own only), and a second call on the same run results returns the same output.
\<close>

theorem aggregation_is_repeatable:
  assumes "\<forall>s\<in>set all_stats. waiting_times_ref s < length h \<and> service_times_ref s < length h"
  shows "case calculate_overall_statistics h all_stats of
           (out, h') \<Rightarrow> take (length h) h' = h \<and>
                        fst (calculate_overall_statistics h' all_stats) = out"
proof (cases "all_stats = []")
  case True
  then show ?thesis by (simp add: calculate_overall_statistics_def)
next
  case False
  let ?W = "concat (map (\<lambda>s. h ! waiting_times_ref s) all_stats)"
  let ?S = "concat (map (\<lambda>s. h ! service_times_ref s) all_stats)"
  let ?h' = "h @ [?W, ?S]"
  have refs': "\<forall>s\<in>set all_stats.
      waiting_times_ref s < length ?h' \<and> service_times_ref s < length ?h'"
    using assms by auto
  have same_w: "map (\<lambda>s. ?h' ! waiting_times_ref s) all_stats =
      map (\<lambda>s. h ! waiting_times_ref s) all_stats"
    using assms by (simp add: nth_append)
  have same_s: "map (\<lambda>s. ?h' ! service_times_ref s) all_stats =
      map (\<lambda>s. h ! service_times_ref s) all_stats"
    using assms by (simp add: nth_append)
  have first: "calculate_overall_statistics h all_stats =
      (then_do (overall all_stats ?W ?S) (\<lambda>d. Inr (Some d)), ?h')"
    by (rule calculate_frame[OF assms False])
  have second: "fst (calculate_overall_statistics ?h' all_stats) =
      then_do (overall all_stats ?W ?S) (\<lambda>d. Inr (Some d))"
    by (simp only: calculate_frame[OF refs' False] same_w same_s fst_conv)
  show ?thesis
    by (simp only: first second prod.case) simp
qed

theorem aggregation_is_repeatable_witness:
  "list_all (\<lambda>s. waiting_times_ref s < length sample_store \<and>
                 service_times_ref s < length sample_store) [busy_run, idle_run] \<and>
   snd (calculate_overall_statistics sample_store [busy_run, idle_run]) =
     sample_store @ [[1, 3], [2, 2]] \<and>
   (case calculate_overall_statistics sample_store [busy_run, idle_run] of
      (out, h') \<Rightarrow> take (length sample_store) h' = sample_store \<and>
                   fst (calculate_overall_statistics h' [busy_run, idle_run]) = out)"
proof -
  have refs: "\<forall>s\<in>set [busy_run, idle_run].
      waiting_times_ref s < length sample_store \<and> service_times_ref s < length sample_store"
    by (simp add: busy_run_def idle_run_def sample_store_def)
  have "snd (calculate_overall_statistics sample_store [busy_run, idle_run]) =
     sample_store @ [[1, 3], [2, 2]]"
    by (subst calculate_frame[OF refs]) (simp_all add: busy_run_def idle_run_def sample_store_def)
  with refs aggregation_is_repeatable[OF refs] show ?thesis by simp
qed

text \<open>
  C10: for the empty list of run results \<open>calculate_overall_statistics\<close> returns \<open>None\<close>,
  not a record of zeros, and leaves the store as it is.
\<close>

theorem no_runs_give_none: "calculate_overall_statistics h [] = (Inr None, h)"
  by (simp add: calculate_overall_statistics_def)

end
